(* ===== verification/Prelude.thy ===== *)
theory Prelude
  imports Main "HOL-Library.Word" "HOL-Library.Sublist"
begin

text \<open>
  Shared vocabulary of the libusbctrl development: the types that stand for the C types
  of \<open>src/src/usbctrl.cpp\<close> (\<open>int\<close>, pointers to \<open>struct udev_device\<close>, C strings),
  the C library functions whose behaviour the code depends on (\<open>strncmp\<close>, \<open>strlen\<close>),
  the arithmetic of a 32-bit \<open>int\<close> counter, and list lemmas used by the registry
  proofs. Generic facts the component proofs share are collected in the named theorem
  collection \<open>dm_simps\<close>.
\<close>

named_theorems dm_simps "rewrite rules shared by the device manager proofs"

section \<open>C types\<close>

text \<open>
  A C \<open>int\<close> is a 32-bit two's complement value: \<open>c_int\<close> is its bit pattern, read
  with \<open>sint\<close>. Incrementing wraps around at the width (the code never checks for
  overflow; see \<open>get_new_identifier\<close>). A \<open>struct udev_device *\<close> is an address
  (\<open>handle\<close>). A C string is the list of its characters before the terminating NUL.
\<close>

type_synonym c_int = "32 word"
type_synonym handle = nat
type_synonym cstring = string

definition INT_MAX :: int where
  "INT_MAX = 2147483647"

definition NUL :: char where
  "NUL = CHR 0x00"

text \<open>A C string never contains NUL: it ends at the first one.\<close>

definition c_string_ok :: "cstring \<Rightarrow> bool" where
  "c_string_ok s \<longleftrightarrow> NUL \<notin> set s"

text \<open>
  Undefined behaviour the code can reach is a value of the model, not an unspecified
  result: passing a NULL string to \<open>strncmp\<close> is \<open>Null_dereference\<close>, reading a
  device object whose last reference has been released is \<open>Use_after_free\<close>, and calling
  through a NULL function pointer is \<open>Null_function_call\<close>, reading a string past the
  end of its allocation is \<open>Buffer_over_read\<close>, and \<open>free\<close> of a pointer that was never
  set is \<open>Invalid_free\<close>.
\<close>

datatype fault =
    Null_dereference | Use_after_free | Null_function_call | Buffer_over_read | Invalid_free

section \<open>strncmp\<close>

text \<open>
  \<open>strncmp(a, b, n) == 0\<close> holds when the first \<open>n\<close> characters of the two
  NUL-terminated strings agree, where the comparison stops early at a common terminator.
  Comparing the first \<open>n\<close> characters of \<open>a\<close> and \<open>b\<close> each followed by its NUL
  is exactly that test.
\<close>

definition c_strncmp_eq :: "cstring \<Rightarrow> cstring \<Rightarrow> nat \<Rightarrow> bool" where
  "c_strncmp_eq a b n \<longleftrightarrow> take n (a @ [NUL]) = take n (b @ [NUL])"

section \<open>Heap buffers\<close>

text \<open>
  A buffer from \<open>malloc(n)\<close>: its size and the bytes written to it from the start.
  \<open>strncpy(dst, src, n)\<close> writes exactly \<open>n\<close> bytes: the first \<open>n\<close> characters of
  \<open>src\<close>, padded with NUL only when \<open>src\<close> is shorter; it writes no terminator when
  \<open>src\<close> has \<open>n\<close> characters or more.
\<close>

record c_buffer =
  buf_size :: nat
  buf_data :: "char list"

definition c_strncpy :: "cstring \<Rightarrow> nat \<Rightarrow> char list" where
  "c_strncpy src n = take n (src @ replicate n NUL)"

text \<open>
  Reading a buffer as a C string (\<open>strlen\<close>, \<open>operator<<\<close>) stays inside the
  allocation only if a NUL lies within it; otherwise the read runs past the end
  (\<open>None\<close>).
\<close>

definition c_buffer_string :: "c_buffer \<Rightarrow> cstring option" where
  "c_buffer_string b =
     (let bytes = take (buf_size b) (buf_data b)
      in if NUL \<in> set bytes then Some (takeWhile (\<lambda>c. c \<noteq> NUL) bytes) else None)"

section \<open>Lists\<close>

text \<open>Removing the element at a valid index, as \<open>std::list::erase\<close> does.\<close>

fun erase_at :: "nat \<Rightarrow> 'a list \<Rightarrow> 'a list" where
  "erase_at _ [] = []"
| "erase_at 0 (x # xs) = xs"
| "erase_at (Suc i) (x # xs) = x # erase_at i xs"

section \<open>Lemmas on strncmp\<close>

text \<open>
  With the length bound taken from the first argument, as the code writes it
  (\<open>strncmp(x, y, strlen(x))\<close>), the test is "x is a prefix of y", not equality.
\<close>

lemma c_strncmp_eq_strlen [dm_simps]:
  assumes "c_string_ok a"
  shows "c_strncmp_eq a b (length a) \<longleftrightarrow> prefix a b"
proof
  assume eq: "c_strncmp_eq a b (length a)"
  show "prefix a b"
  proof (cases "length a \<le> length b")
    case True
    with eq have "take (length a) b = a" by (simp add: c_strncmp_eq_def)
    then show ?thesis by (metis prefixI append_take_drop_id)
  next
    case False
    then have "take (length a) (b @ [NUL]) = b @ [NUL]" by simp
    with eq have "a = b @ [NUL]" by (simp add: c_strncmp_eq_def)
    with assms show ?thesis by (simp add: c_string_ok_def)
  qed
next
  assume "prefix a b"
  then obtain c where "b = a @ c" by (auto simp: prefix_def)
  then show "c_strncmp_eq a b (length a)" by (simp add: c_strncmp_eq_def)
qed

lemma c_strncmp_eq_literal [dm_simps]:
  "c_strncmp_eq a b (length b) \<longleftrightarrow> take (length b) (a @ [NUL]) = b"
  by (simp add: c_strncmp_eq_def)

section \<open>The 32-bit counter\<close>

text \<open>Below \<open>INT_MAX\<close>, incrementing a C \<open>int\<close> adds one to its signed value.\<close>

lemma sint_incr [dm_simps]:
  fixes x :: c_int
  assumes "sint x < INT_MAX"
  shows "sint (x + 1) = sint x + 1"
proof -
  have lo: "- (2 ^ 31) \<le> sint x" using sint_ge [of x] by simp
  from assms have hi: "sint x + 1 < 2 ^ 31" by (simp add: INT_MAX_def)
  have "sint (x + 1) = signed_take_bit 31 (sint x + sint (1 :: c_int))"
    by (simp add: sint_word_ariths)
  also have "\<dots> = sint x + 1"
    using lo hi by (simp add: signed_take_bit_int_eq_self)
  finally show ?thesis .
qed

text \<open>At \<open>INT_MAX\<close> the increment wraps to the most negative \<open>int\<close>.\<close>

lemma sint_incr_wraps [dm_simps]:
  fixes x :: c_int
  assumes "sint x = INT_MAX"
  shows "sint (x + 1) = - (2 ^ 31)"
proof -
  have "sint (x + 1) = signed_take_bit 31 (sint x + sint (1 :: c_int))"
    by (simp add: sint_word_ariths)
  with assms show ?thesis by (simp add: INT_MAX_def)
qed

section \<open>Lemmas on lists\<close>

lemma distinct_if_sorted_wrt_neq [dm_simps]:
  "sorted_wrt (\<lambda>a b. a \<noteq> b) xs \<Longrightarrow> distinct xs"
  by (induction xs) auto

lemma erase_at_eq: "erase_at i xs = take i xs @ drop (Suc i) xs"
  by (induction i xs rule: erase_at.induct) auto

lemma set_erase_at_subset [dm_simps]: "set (erase_at i xs) \<subseteq> set xs"
  by (induction i xs rule: erase_at.induct) auto

lemma sorted_wrt_erase_at [dm_simps]:
  "sorted_wrt P xs \<Longrightarrow> sorted_wrt P (erase_at i xs)"
proof (induction i xs rule: erase_at.induct)
  case (3 i x xs)
  then show ?case using set_erase_at_subset [of i xs] by auto
qed auto

lemma distinct_erase_at [dm_simps]:
  "distinct xs \<Longrightarrow> distinct (erase_at i xs)"
proof (induction i xs rule: erase_at.induct)
  case (3 i x xs)
  then show ?case using set_erase_at_subset [of i xs] by auto
qed auto

lemma map_erase_at [dm_simps]: "map f (erase_at i xs) = erase_at i (map f xs)"
  by (induction i xs rule: erase_at.induct) auto

lemma length_erase_at [dm_simps]:
  "i < length xs \<Longrightarrow> length (erase_at i xs) = length xs - 1"
  by (induction i xs rule: erase_at.induct) auto

lemma set_erase_at_distinct [dm_simps]:
  "distinct xs \<Longrightarrow> i < length xs \<Longrightarrow> set (erase_at i xs) = set xs - {xs ! i}"
proof (induction i xs rule: erase_at.induct)
  case (3 i x xs)
  then have d: "distinct xs" and i: "i < length xs" and x: "x \<notin> set xs" by simp_all
  from i have "xs ! i \<in> set xs" by (rule nth_mem)
  with x have ne: "x \<noteq> xs ! i" by blast
  from "3.IH" d i have "set (erase_at i xs) = set xs - {xs ! i}" by blast
  with ne show ?case by auto
qed auto

lemma c_strncpy_strlen [dm_simps]: "c_strncpy src (length src) = src"
  by (simp add: c_strncpy_def)

lemma c_buffer_string_full [dm_simps]:
  assumes "c_string_ok s" and "buf_size b = length s" and "buf_data b = s"
  shows "c_buffer_string b = None"
  using assms by (simp add: c_buffer_string_def c_string_ok_def)

lemma takeWhile_not_NUL:
  "NUL \<notin> set s \<Longrightarrow> takeWhile (\<lambda>c. c \<noteq> NUL) (s @ [NUL]) = s"
  by (induction s) auto

lemma c_buffer_string_terminated [dm_simps]:
  assumes "c_string_ok s" and "buf_size b = Suc (length s)" and "buf_data b = s @ [NUL]"
  shows "c_buffer_string b = Some s"
proof -
  have "takeWhile (\<lambda>c. c \<noteq> NUL) (s @ [NUL]) = s"
    using assms(1) by (simp add: c_string_ok_def takeWhile_not_NUL)
  with assms show ?thesis by (simp add: c_buffer_string_def)
qed

lemma sint_add_of_nat [dm_simps]:
  fixes x :: c_int
  assumes "sint x + int k \<le> INT_MAX" and "0 \<le> sint x"
  shows "sint (x + of_nat k) = sint x + int k"
  using assms
proof (induction k)
  case 0
  then show ?case by simp
next
  case (Suc k)
  then have ih: "sint (x + of_nat k) = sint x + int k" by simp
  with Suc.prems have "sint (x + of_nat k) < INT_MAX" by simp
  then have step: "sint (x + of_nat k + 1) = sint (x + of_nat k) + 1" by (rule sint_incr)
  have eq: "x + of_nat (Suc k) = (x + of_nat k) + 1" by (simp add: algebra_simps)
  show ?case unfolding eq step ih by simp
qed

text \<open>A value in the range of \<open>int\<close> survives the conversion to \<open>c_int\<close>.\<close>

lemma sint_word_of_int_range:
  "- INT_MAX - 1 \<le> i \<Longrightarrow> i \<le> INT_MAX \<Longrightarrow> sint (word_of_int i :: c_int) = i"
  by (simp add: INT_MAX_def sint_sbintrunc' signed_take_bit_int_eq_self)

lemma sint_of_nat_range:
  "int n \<le> INT_MAX \<Longrightarrow> sint (word_of_nat n :: c_int) = int n"
  using sint_word_of_int_range [of "int n"] by (simp add: INT_MAX_def)

end
