(* ===== verification/Udev.thy ===== *)
theory Udev
  imports Prelude
begin

text \<open>
  The boundary to libudev (spec section 6), which is not part of this repository: the
  device objects the program holds through \<open>struct udev_device *\<close> pointers, the
  reference counts it owns on them, and the four calls \<open>usbctrl.cpp\<close> makes on a device
  object: creating one (\<open>udev_device_new_from_syspath\<close>, \<open>udev_monitor_receive_device\<close>),
  releasing a reference (\<open>udev_device_unref\<close>), and reading its node path, action and
  attributes. The heap is an explicit store from addresses to objects, so that ownership
  and release of a handle can be stated. A handle's reference count only counts the
  references the program holds; the object is freed when it drops to zero.
\<close>

record udev_device =
  dev_devnode :: "cstring option"
  dev_action :: "cstring option"
  dev_sysattrs :: "(cstring \<times> cstring) list"

record udev_heap =
  udev_objects :: "handle \<Rightarrow> udev_device option"
  udev_refs :: "handle \<Rightarrow> int"
  udev_next :: handle

definition udev_heap_empty :: udev_heap where
  "udev_heap_empty = \<lparr>udev_objects = (\<lambda>_. None), udev_refs = (\<lambda>_. 0), udev_next = 1\<rparr>"

text \<open>
  A new device object has one reference, owned by the caller; its address is one that no
  live object has (the allocator hands out \<open>udev_next\<close>).
\<close>

definition udev_device_new :: "udev_device \<Rightarrow> udev_heap \<Rightarrow> handle \<times> udev_heap" where
  "udev_device_new d u =
     (let h = udev_next u
      in (h, u\<lparr>udev_objects := (udev_objects u)(h \<mapsto> d),
              udev_refs := (udev_refs u)(h := 1),
              udev_next := Suc h\<rparr>))"

definition udev_device_unref :: "handle \<Rightarrow> udev_heap \<Rightarrow> udev_heap" where
  "udev_device_unref h u =
     (let n = udev_refs u h - 1
      in u\<lparr>udev_refs := (udev_refs u)(h := n),
           udev_objects := (if n = 0 then (udev_objects u)(h := None) else udev_objects u)\<rparr>)"

definition udev_device_get_devnode :: "udev_heap \<Rightarrow> handle \<Rightarrow> cstring option" where
  "udev_device_get_devnode u h =
     (case udev_objects u h of None \<Rightarrow> None | Some d \<Rightarrow> dev_devnode d)"

definition udev_device_get_action :: "udev_heap \<Rightarrow> handle \<Rightarrow> cstring option" where
  "udev_device_get_action u h =
     (case udev_objects u h of None \<Rightarrow> None | Some d \<Rightarrow> dev_action d)"

definition udev_device_get_sysattr_value :: "udev_heap \<Rightarrow> handle \<Rightarrow> cstring \<Rightarrow> cstring option" where
  "udev_device_get_sysattr_value u h key =
     (case udev_objects u h of None \<Rightarrow> None | Some d \<Rightarrow> map_of (dev_sysattrs d) key)"

text \<open>The allocator never hands out the address of an object that exists.\<close>

definition udev_heap_ok :: "udev_heap \<Rightarrow> bool" where
  "udev_heap_ok u \<longleftrightarrow> (\<forall>h. udev_next u \<le> h \<longrightarrow> udev_objects u h = None)"

lemma udev_heap_ok_empty: "udev_heap_ok udev_heap_empty"
  by (simp add: udev_heap_ok_def udev_heap_empty_def)

lemma udev_device_new_fields [dm_simps]:
  assumes "udev_device_new d u = (h, u')"
  shows "h = udev_next u" "udev_objects u' = (udev_objects u)(h \<mapsto> d)"
    "udev_refs u' = (udev_refs u)(h := 1)" "udev_next u' = Suc h"
  using assms by (auto simp: udev_device_new_def Let_def)

lemma udev_device_new_fresh:
  "udev_heap_ok u \<Longrightarrow> udev_objects u (udev_next u) = None"
  by (simp add: udev_heap_ok_def)

lemma udev_device_new_ok [dm_simps]:
  "udev_heap_ok u \<Longrightarrow> udev_heap_ok (snd (udev_device_new d u))"
  by (simp add: udev_heap_ok_def udev_device_new_def Let_def)

lemma udev_device_unref_ok [dm_simps]:
  "udev_heap_ok u \<Longrightarrow> udev_heap_ok (udev_device_unref h u)"
  by (simp add: udev_heap_ok_def udev_device_unref_def Let_def)

lemma udev_device_unref_next [simp]: "udev_next (udev_device_unref h u) = udev_next u"
  by (simp add: udev_device_unref_def Let_def)

text \<open>Releasing the only reference frees the object and leaves every other one alone.\<close>

lemma udev_device_unref_last [dm_simps]:
  assumes "udev_refs u h = 1"
  shows "udev_refs (udev_device_unref h u) = (udev_refs u)(h := 0)"
    "udev_objects (udev_device_unref h u) = (udev_objects u)(h := None)"
  using assms by (simp_all add: udev_device_unref_def)

end
