(* ===== verification/Registry.thy ===== *)
theory Registry
  imports Udev
begin

text \<open>
  The device registry of \<open>class device_manager\<close> (\<open>src/src/usbctrl.cpp\<close>): the nested
  class \<open>device_record\<close> (lines 70--93), the list \<open>m_device_records\<close> and the counter
  \<open>m_last_used_identifier\<close>, with the private operations that run under the registry
  lock: \<open>get_new_identifier\<close>, \<open>add_device_to_records\<close>,
  \<open>remove_device_from_records\<close>, \<open>reset_device_records\<close> and
  \<open>get_connected_devices_list\<close>. The registry is an extensible record, so that the
  operations apply unchanged to the whole \<open>device_manager\<close> state that extends it.
  The registry invariant (\<open>registry_inv\<close>) says that identifiers are positive, strictly
  increasing along the list and bounded by the counter, and that every record owns exactly
  one reference to its own device object; the abstraction \<open>registry_abs\<close> maps the list
  to the identifier-indexed map of the specification (section 4.1).
\<close>

section \<open>Records and operations\<close>

record device_record =
  m_identifier :: c_int
  m_device :: handle
  m_devnode :: "cstring option"

record registry =
  m_device_records :: "device_record list"
  m_last_used_identifier :: c_int
  udev :: udev_heap

text \<open>\<open>~device_record()\<close> releases the record's reference to its device object.\<close>

definition device_record_destroy :: "device_record \<Rightarrow> udev_heap \<Rightarrow> udev_heap" where
  "device_record_destroy r u = udev_device_unref (m_device r) u"

definition get_new_identifier :: "'a registry_scheme \<Rightarrow> c_int \<times> 'a registry_scheme" where
  "get_new_identifier s =
     (let n = m_last_used_identifier s + 1 in (n, s\<lparr>m_last_used_identifier := n\<rparr>))"

definition add_device_to_records ::
  "handle \<Rightarrow> 'a registry_scheme \<Rightarrow> (bool \<times> c_int) \<times> 'a registry_scheme" where
  "add_device_to_records device s =
     (let (identifier, s1) = get_new_identifier s;
          temp = \<lparr>m_identifier = identifier, m_device = device,
                  m_devnode = udev_device_get_devnode (udev s1) device\<rparr>
      in ((True, identifier), s1\<lparr>m_device_records := m_device_records s1 @ [temp]\<rparr>))"

text \<open>
  The search loop of \<open>remove_device_from_records\<close> (lines 446--454): the index of the
  first record whose node path passes \<open>strncmp(devnode, rec, strlen(devnode)) == 0\<close>.
  A record whose node path is NULL faults when it is reached.
\<close>

fun find_devnode_record :: "cstring \<Rightarrow> device_record list \<Rightarrow> fault + nat option" where
  "find_devnode_record devnode [] = Inr None"
| "find_devnode_record devnode (r # rs) =
     (case m_devnode r of
        None \<Rightarrow> Inl Null_dereference
      | Some d \<Rightarrow>
          if c_strncmp_eq devnode d (length devnode) then Inr (Some 0)
          else (case find_devnode_record devnode rs of
                  Inl f \<Rightarrow> Inl f
                | Inr None \<Rightarrow> Inr None
                | Inr (Some i) \<Rightarrow> Inr (Some (Suc i))))"

definition remove_device_from_records ::
  "handle \<Rightarrow> 'a registry_scheme \<Rightarrow> fault + (bool \<times> c_int) \<times> 'a registry_scheme" where
  "remove_device_from_records device s =
     (case udev_device_get_devnode (udev s) device of
        None \<Rightarrow> Inr ((False, -1), s)
      | Some devnode \<Rightarrow>
          (case find_devnode_record devnode (m_device_records s) of
             Inl f \<Rightarrow> Inl f
           | Inr None \<Rightarrow> Inr ((False, -1), s)
           | Inr (Some i) \<Rightarrow>
               (let r = m_device_records s ! i
                in Inr ((True, m_identifier r),
                        s\<lparr>udev := device_record_destroy r (udev s),
                          m_device_records := erase_at i (m_device_records s)\<rparr>))))"

definition reset_device_records :: "'a registry_scheme \<Rightarrow> 'a registry_scheme" where
  "reset_device_records s =
     (if length (m_device_records s) \<noteq> 0
      then s\<lparr>udev := fold device_record_destroy (m_device_records s) (udev s),
             m_device_records := []\<rparr>
      else s)"

text \<open>
  \<open>get_connected_devices_list\<close> writes the number of records to
  \<open>*device_list_size\<close> and, only when it is not zero, a freshly allocated array of the
  identifiers in list order to \<open>*device_list\<close>; \<open>None\<close> is "not written". The
  count is \<open>m_device_records.size()\<close>, a \<open>size_t\<close>, stored into an \<open>int\<close>: the
  conversion keeps it modulo \<open>2^32\<close>, as \<open>word_of_nat\<close> does.
\<close>

definition get_connected_devices_list :: "'a registry_scheme \<Rightarrow> c_int \<times> c_int list option" where
  "get_connected_devices_list s =
     (let size = (word_of_nat (length (m_device_records s)) :: c_int)
      in (size, if size \<noteq> 0 then Some (map m_identifier (m_device_records s)) else None))"

section \<open>Invariant and abstraction\<close>

text \<open>
  Identifiers: strictly increasing (as signed values) in list order, positive, and not
  above the counter, which is never negative.
\<close>

definition ids_ok :: "'a registry_scheme \<Rightarrow> bool" where
  "ids_ok s \<longleftrightarrow>
     sorted_wrt (\<lambda>a b. sint (m_identifier a) < sint (m_identifier b)) (m_device_records s) \<and>
     (\<forall>r\<in>set (m_device_records s).
        0 < sint (m_identifier r) \<and> sint (m_identifier r) \<le> sint (m_last_used_identifier s)) \<and>
     0 \<le> sint (m_last_used_identifier s)"

text \<open>
  Ownership, with \<open>P\<close> the handles the caller holds but has not stored yet (the local
  \<open>device\<close> of \<open>process_udev_monitor_event\<close>): the program holds exactly one reference
  on each stored or held handle and none on any other, no handle is stored twice, and each
  stored record's node path is the one of its object.
\<close>

definition owner_ok :: "handle set \<Rightarrow> 'a registry_scheme \<Rightarrow> bool" where
  "owner_ok P s \<longleftrightarrow>
     distinct (map m_device (m_device_records s)) \<and>
     P \<inter> m_device ` set (m_device_records s) = {} \<and>
     (\<forall>h. udev_refs (udev s) h = (if h \<in> m_device ` set (m_device_records s) \<union> P then 1 else 0)) \<and>
     (\<forall>r\<in>set (m_device_records s). \<exists>d. udev_objects (udev s) (m_device r) = Some d \<and>
        m_devnode r = dev_devnode d) \<and>
     (\<forall>h\<in>P. udev_objects (udev s) h \<noteq> None)"

definition registry_inv :: "handle set \<Rightarrow> 'a registry_scheme \<Rightarrow> bool" where
  "registry_inv P s \<longleftrightarrow> ids_ok s \<and> owner_ok P s \<and> udev_heap_ok (udev s)"

text \<open>
  The memory half of the invariant: ownership of device references and a sound
  allocator, independent of the identifier counter.
\<close>

definition heap_ok :: "handle set \<Rightarrow> 'a registry_scheme \<Rightarrow> bool" where
  "heap_ok P s \<longleftrightarrow> owner_ok P s \<and> udev_heap_ok (udev s)"

definition registry_abs :: "device_record list \<Rightarrow> c_int \<rightharpoonup> handle \<times> cstring option" where
  "registry_abs rs = map_of (map (\<lambda>r. (m_identifier r, (m_device r, m_devnode r))) rs)"

text \<open>
  The body of the enumeration loop of \<open>enumerate_connected_devices\<close> (lines 409--416):
  \<open>udev_device_new_from_syspath\<close> either fails (\<open>None\<close>, the entry is skipped) or
  yields a new device object whose reference \<open>add_device_to_records\<close> takes over.
\<close>

definition enumerate_add_device :: "udev_device option \<Rightarrow> 'a registry_scheme \<Rightarrow> 'a registry_scheme" where
  "enumerate_add_device found s =
     (case found of
        None \<Rightarrow> s
      | Some d \<Rightarrow>
          (let (device, u) = udev_device_new d (udev s)
           in snd (add_device_to_records device (s\<lparr>udev := u\<rparr>))))"

text \<open>
  The registry as the constructor leaves it (initializer list, line 108): no records and
  \<open>m_last_used_identifier(0)\<close>; no device object exists yet.
\<close>

definition registry_initial :: registry where
  "registry_initial =
     \<lparr>m_device_records = [], m_last_used_identifier = 0, udev = udev_heap_empty\<rparr>"

text \<open>Two node paths where one is a prefix of the other, for the matching examples.\<close>

definition ex_node_short :: cstring where
  "ex_node_short = ''/dev/bus/usb/001/002''"

definition ex_node_long :: cstring where
  "ex_node_long = ''/dev/bus/usb/001/0021''"

definition ex_usb_device :: "cstring \<Rightarrow> udev_device" where
  "ex_usb_device node =
     \<lparr>dev_devnode = Some node, dev_action = Some ''add'',
      dev_sysattrs = [(''idVendor'', ''0x046d''), (''product'', ''USB Receiver'')]\<rparr>"


text \<open>
  Example states for the witnesses: the registry after enumerating devices with the given
  node paths, and the handle of a further object with a given node path, as a "remove"
  event delivers it.
\<close>

definition ex_node_other :: cstring where
  "ex_node_other = ''/dev/bus/usb/001/003''"

definition ex_registry :: "cstring list \<Rightarrow> registry" where
  "ex_registry nodes =
     fold (\<lambda>n. enumerate_add_device (Some (ex_usb_device n))) nodes registry_initial"

definition ex_remove_event :: "cstring list \<Rightarrow> cstring \<Rightarrow> handle \<times> registry" where
  "ex_remove_event nodes node =
     (let s = ex_registry nodes; (h, u) = udev_device_new (ex_usb_device node) (udev s)
      in (h, s\<lparr>udev := u\<rparr>))"

section \<open>Lemmas on the registry operations\<close>

lemma registry_inv_heap_ok: "registry_inv P s \<longleftrightarrow> ids_ok s \<and> heap_ok P s"
  by (simp add: registry_inv_def heap_ok_def)

lemma add_device_to_records_eq:
  "add_device_to_records h s =
     ((True, m_last_used_identifier s + 1),
      s\<lparr>m_last_used_identifier := m_last_used_identifier s + 1,
        m_device_records := m_device_records s @
          [\<lparr>m_identifier = m_last_used_identifier s + 1, m_device = h,
            m_devnode = udev_device_get_devnode (udev s) h\<rparr>]\<rparr>)"
  by (simp add: add_device_to_records_def get_new_identifier_def Let_def)

lemma ids_ok_distinct:
  "ids_ok s \<Longrightarrow> distinct (map m_identifier (m_device_records s))"
proof -
  assume "ids_ok s"
  then have "sorted_wrt (\<lambda>a b. sint (m_identifier a) < sint (m_identifier b)) (m_device_records s)"
    by (simp add: ids_ok_def)
  then have "sorted_wrt (\<lambda>a b. a \<noteq> b) (map m_identifier (m_device_records s))"
    by (simp add: sorted_wrt_map) (rule sorted_wrt_mono_rel, auto)
  then show ?thesis by (rule distinct_if_sorted_wrt_neq)
qed

text \<open>
  The identifiers are distinct positive \<open>int\<close> values, so there are at most
  \<open>INT_MAX\<close> records.
\<close>

lemma ids_ok_length_le:
  assumes "ids_ok s"
  shows "int (length (m_device_records s)) \<le> INT_MAX"
proof -
  let ?v = "map (\<lambda>r. sint (m_identifier r)) (m_device_records s)"
  from assms have "sorted_wrt (<) ?v"
    by (simp add: ids_ok_def sorted_wrt_map)
  then have d: "distinct ?v" by (rule strict_sorted_iff [THEN iffD1, THEN conjunct2])
  have "set ?v \<subseteq> {1..INT_MAX}"
  proof
    fix x assume "x \<in> set ?v"
    then obtain r where "r \<in> set (m_device_records s)" "x = sint (m_identifier r)" by auto
    with assms sint_lt [of "m_identifier r"] show "x \<in> {1..INT_MAX}"
      by (auto simp: ids_ok_def INT_MAX_def)
  qed
  then have "card (set ?v) \<le> card {1..INT_MAX}" by (rule card_mono [OF finite_atLeastAtMost_int])
  with distinct_card [OF d] show ?thesis by (simp add: INT_MAX_def)
qed

lemma ids_ok_add:
  assumes "ids_ok s" and "sint (m_last_used_identifier s) < INT_MAX"
  shows "ids_ok (snd (add_device_to_records h s))"
proof -
  let ?n = "m_last_used_identifier s + 1"
  from assms(2) have n: "sint ?n = sint (m_last_used_identifier s) + 1" by (rule sint_incr)
  with assms(1) show ?thesis
    by (auto simp: ids_ok_def add_device_to_records_eq sorted_wrt_append)
qed

lemma owner_ok_add:
  assumes "owner_ok (insert h P) s" and "h \<notin> P"
  shows "owner_ok P (snd (add_device_to_records h s))"
  using assms
  by (auto simp: owner_ok_def add_device_to_records_eq udev_device_get_devnode_def
      split: option.splits)

lemma find_devnode_record_Some:
  "find_devnode_record dn rs = Inr (Some i) \<Longrightarrow>
     i < length rs \<and> (\<exists>d. m_devnode (rs ! i) = Some d \<and> c_strncmp_eq dn d (length dn)) \<and>
     (\<forall>j<i. \<exists>d. m_devnode (rs ! j) = Some d \<and> \<not> c_strncmp_eq dn d (length dn))"
proof (induction dn rs arbitrary: i rule: find_devnode_record.induct)
  case (2 dn r rs)
  then show ?case
    by (auto simp: nth_Cons' less_Suc_eq_0_disj split: option.splits if_splits sum.splits)
qed simp

lemma find_devnode_record_None:
  "find_devnode_record dn rs = Inr None \<Longrightarrow>
     \<forall>r\<in>set rs. \<exists>d. m_devnode r = Some d \<and> \<not> c_strncmp_eq dn d (length dn)"
  by (induction dn rs rule: find_devnode_record.induct)
    (auto split: option.splits if_splits sum.splits)

lemma find_devnode_record_Inl:
  "find_devnode_record dn rs = Inl f \<Longrightarrow> \<exists>r\<in>set rs. m_devnode r = None"
  by (induction dn rs rule: find_devnode_record.induct)
    (auto split: option.splits if_splits sum.splits)

lemma remove_device_from_records_cases:
  assumes "remove_device_from_records device s = Inr (res, s')"
  shows "(res = (False, -1) \<and> s' = s) \<or>
    (\<exists>dn i. udev_device_get_devnode (udev s) device = Some dn \<and>
       find_devnode_record dn (m_device_records s) = Inr (Some i) \<and>
       res = (True, m_identifier (m_device_records s ! i)) \<and>
       s' = s\<lparr>udev := device_record_destroy (m_device_records s ! i) (udev s),
             m_device_records := erase_at i (m_device_records s)\<rparr>)"
  using assms
  by (auto simp: remove_device_from_records_def Let_def split: option.splits sum.splits)

lemma ids_ok_erase:
  "ids_ok s \<Longrightarrow> ids_ok (s\<lparr>udev := u, m_device_records := erase_at i (m_device_records s)\<rparr>)"
  by (auto simp: ids_ok_def sorted_wrt_erase_at dest: set_erase_at_subset [THEN subsetD])

lemma owner_ok_erase:
  assumes inv: "owner_ok P s" and i: "i < length (m_device_records s)"
  shows "owner_ok P (s\<lparr>udev := device_record_destroy (m_device_records s ! i) (udev s),
                      m_device_records := erase_at i (m_device_records s)\<rparr>)"
proof -
  let ?rs = "m_device_records s" and ?u = "udev s"
  let ?hr = "m_device (?rs ! i)"
  from inv have d: "distinct (map m_device ?rs)" by (simp add: owner_ok_def)
  from i have mem: "?hr \<in> m_device ` set ?rs" by auto
  with inv have one: "udev_refs ?u ?hr = 1" and notP: "?hr \<notin> P"
    by (auto simp: owner_ok_def)
  from d i have hs: "set (map m_device (erase_at i ?rs)) = m_device ` set ?rs - {?hr}"
    by (simp add: map_erase_at set_erase_at_distinct)
  have refs: "udev_refs (device_record_destroy (?rs ! i) ?u) = (udev_refs ?u)(?hr := 0)"
    and objs: "udev_objects (device_record_destroy (?rs ! i) ?u) = (udev_objects ?u)(?hr := None)"
    using one by (simp_all add: device_record_destroy_def udev_device_unref_last)
  have hs': "m_device ` set (erase_at i ?rs) = m_device ` set ?rs - {?hr}"
    using hs by simp
  have rest: "\<forall>r\<in>set (erase_at i ?rs). m_device r \<noteq> ?hr \<and> r \<in> set ?rs"
    using hs' by (auto dest: set_erase_at_subset [THEN subsetD])
  have c1: "distinct (map m_device (erase_at i ?rs))"
    using d by (simp add: map_erase_at distinct_erase_at)
  have c2: "P \<inter> m_device ` set (erase_at i ?rs) = {}"
    using inv hs' by (auto simp: owner_ok_def)
  have c3: "\<forall>h. ((udev_refs ?u)(?hr := 0)) h = (if h \<in> m_device ` set (erase_at i ?rs) \<union> P then 1 else 0)"
    using inv hs' notP by (auto simp: owner_ok_def)
  have c4: "\<forall>r\<in>set (erase_at i ?rs). \<exists>d. ((udev_objects ?u)(?hr := None)) (m_device r) = Some d \<and>
        m_devnode r = dev_devnode d"
    using inv rest by (auto simp: owner_ok_def)
  have c5: "\<forall>h\<in>P. ((udev_objects ?u)(?hr := None)) h \<noteq> None"
    using inv notP by (auto simp: owner_ok_def)
  show ?thesis
    unfolding owner_ok_def using c1 c2 c3 c4 c5 by (simp add: refs objs)
qed

lemma fold_destroy:
  assumes "distinct (map m_device rs)" and "\<forall>r\<in>set rs. udev_refs u (m_device r) = 1"
  shows "udev_refs (fold device_record_destroy rs u) =
           (\<lambda>h. if h \<in> m_device ` set rs then 0 else udev_refs u h) \<and>
         udev_objects (fold device_record_destroy rs u) =
           (\<lambda>h. if h \<in> m_device ` set rs then None else udev_objects u h) \<and>
         udev_next (fold device_record_destroy rs u) = udev_next u"
  using assms
proof (induction rs arbitrary: u)
  case Nil
  then show ?case by simp
next
  case (Cons r rs)
  let ?u1 = "device_record_destroy r u"
  from Cons.prems have one: "udev_refs u (m_device r) = 1" by simp
  then have u1: "udev_refs ?u1 = (udev_refs u)(m_device r := 0)"
    "udev_objects ?u1 = (udev_objects u)(m_device r := None)"
    "udev_next ?u1 = udev_next u"
    by (simp_all add: device_record_destroy_def udev_device_unref_last)
  from Cons.prems have ne: "\<forall>r'\<in>set rs. m_device r' \<noteq> m_device r"
    by (metis distinct.simps(2) imageI list.set_map list.simps(9))
  with Cons.prems have "distinct (map m_device rs)" "\<forall>r'\<in>set rs. udev_refs ?u1 (m_device r') = 1"
    by (auto simp: u1)
  from Cons.IH [OF this] Cons.prems show ?case
    by (auto simp: u1 fun_eq_iff)
qed

lemma remove_device_from_records_found:
  assumes "remove_device_from_records device s = Inr (res, s')"
  obtains "s' = s"
  | i where "i < length (m_device_records s)"
      "s' = s\<lparr>udev := device_record_destroy (m_device_records s ! i) (udev s),
             m_device_records := erase_at i (m_device_records s)\<rparr>"
proof -
  from remove_device_from_records_cases [OF assms] show ?thesis
    by (auto dest: find_devnode_record_Some intro: that)
qed

lemma heap_ok_remove:
  assumes "remove_device_from_records device s = Inr (res, s')" and "heap_ok P s"
  shows "heap_ok P s'"
  using assms(1)
proof (cases rule: remove_device_from_records_found)
  case (2 i)
  with assms(2) show ?thesis
    by (simp add: heap_ok_def owner_ok_erase) (simp add: device_record_destroy_def udev_device_unref_ok)
qed (use assms(2) in simp)

lemma ids_ok_remove:
  assumes "remove_device_from_records device s = Inr (res, s')" and "ids_ok s"
  shows "ids_ok s'"
  using assms(1) by (cases rule: remove_device_from_records_found) (use assms(2) ids_ok_erase in auto)

lemma registry_inv_remove:
  assumes "remove_device_from_records device s = Inr (res, s')" and "registry_inv P s"
  shows "registry_inv P s'"
  using assms heap_ok_remove [OF assms(1)] ids_ok_remove [OF assms(1)]
  by (simp add: registry_inv_heap_ok)

lemma heap_ok_reset:
  assumes "heap_ok P s"
  shows "heap_ok P (reset_device_records s)"
proof (cases "m_device_records s = []")
  case True
  with assms show ?thesis by (simp add: reset_device_records_def)
next
  case False
  let ?rs = "m_device_records s"
  from assms have d: "distinct (map m_device ?rs)" and one: "\<forall>r\<in>set ?rs. udev_refs (udev s) (m_device r) = 1"
    by (auto simp: heap_ok_def owner_ok_def)
  note f = fold_destroy [OF d one]
  from assms False f show ?thesis
    by (auto simp: reset_device_records_def heap_ok_def owner_ok_def udev_heap_ok_def)
qed

lemma ids_ok_reset: "ids_ok s \<Longrightarrow> ids_ok (reset_device_records s)"
  by (simp add: reset_device_records_def ids_ok_def)

lemma registry_inv_reset:
  assumes "registry_inv P s"
  shows "registry_inv P (reset_device_records s)"
  using assms by (simp add: registry_inv_heap_ok heap_ok_reset ids_ok_reset)

lemma ids_ok_udev [simp]: "ids_ok (s\<lparr>udev := u\<rparr>) = ids_ok s"
  by (simp add: ids_ok_def)

lemma heap_ok_new:
  assumes "heap_ok P s" and "udev_device_new d (udev s) = (h, u')"
  shows "heap_ok (insert h P) (s\<lparr>udev := u'\<rparr>) \<and> h \<notin> P \<and>
         h \<notin> m_device ` set (m_device_records s)"
proof -
  note new = udev_device_new_fields [OF assms(2)]
  from assms(1) have fresh: "udev_objects (udev s) h = None"
    by (simp add: heap_ok_def udev_heap_ok_def new(1))
  from assms(1) fresh have notP: "h \<notin> P" and notS: "h \<notin> m_device ` set (m_device_records s)"
    by (auto simp: heap_ok_def owner_ok_def)
  have ok: "udev_heap_ok u'"
    using udev_device_new_ok [of "udev s" d] assms by (simp add: heap_ok_def)
  from notS have ne: "\<forall>r\<in>set (m_device_records s). m_device r \<noteq> h" by force
  from assms(1) notP notS ok ne have "heap_ok (insert h P) (s\<lparr>udev := u'\<rparr>)"
    by (auto simp: heap_ok_def owner_ok_def new)
  with notP notS show ?thesis by blast
qed

lemma registry_inv_new:
  assumes "registry_inv P s" and "udev_device_new d (udev s) = (h, u')"
  shows "registry_inv (insert h P) (s\<lparr>udev := u'\<rparr>) \<and> h \<notin> P \<and>
         h \<notin> m_device ` set (m_device_records s)"
  using assms heap_ok_new [of P s d h u'] by (simp add: registry_inv_heap_ok)

lemma heap_ok_unref:
  assumes "heap_ok P s" and "h \<in> P"
  shows "heap_ok (P - {h}) (s\<lparr>udev := udev_device_unref h (udev s)\<rparr>)"
proof -
  from assms have one: "udev_refs (udev s) h = 1" and notS: "h \<notin> m_device ` set (m_device_records s)"
    by (auto simp: heap_ok_def owner_ok_def)
  note u = udev_device_unref_last [OF one]
  from assms notS show ?thesis
    by (auto simp: heap_ok_def owner_ok_def u udev_device_unref_ok)
qed

lemma registry_inv_unref:
  assumes "registry_inv P s" and "h \<in> P"
  shows "registry_inv (P - {h}) (s\<lparr>udev := udev_device_unref h (udev s)\<rparr>)"
  using assms heap_ok_unref [of P s h] by (simp add: registry_inv_heap_ok)

lemma heap_ok_add:
  assumes "heap_ok (insert h P) s" and "h \<notin> P"
  shows "heap_ok P (snd (add_device_to_records h s))"
proof -
  have "udev (snd (add_device_to_records h s)) = udev s"
    by (simp add: add_device_to_records_eq)
  with assms show ?thesis by (simp add: heap_ok_def owner_ok_add)
qed

lemma registry_inv_add:
  assumes "registry_inv (insert h P) s" and "h \<notin> P"
    and "sint (m_last_used_identifier s) < INT_MAX"
  shows "registry_inv P (snd (add_device_to_records h s))"
  using assms heap_ok_add [of h P s] by (simp add: registry_inv_heap_ok ids_ok_add)

lemma registry_abs_append_fresh:
  "m_identifier r \<notin> set (map m_identifier rs) \<Longrightarrow>
   registry_abs (rs @ [r]) = (registry_abs rs)(m_identifier r \<mapsto> (m_device r, m_devnode r))"
  by (induction rs) (auto simp: registry_abs_def fun_eq_iff)

lemma registry_abs_SomeD:
  "registry_abs rs identifier = Some (h, n) \<Longrightarrow>
   \<exists>r\<in>set rs. m_identifier r = identifier \<and> m_device r = h \<and> m_devnode r = n"
  by (induction rs) (auto simp: registry_abs_def split: if_splits)

lemma registry_abs_erase:
  "distinct (map m_identifier rs) \<Longrightarrow> i < length rs \<Longrightarrow>
   registry_abs (erase_at i rs) = (registry_abs rs)(m_identifier (rs ! i) := None)"
proof (induction i rs rule: erase_at.induct)
  case (2 x xs)
  then have "m_identifier x \<notin> fst ` set (map (\<lambda>r. (m_identifier r, m_device r, m_devnode r)) xs)"
    by (auto simp: image_image)
  then show ?case by (auto simp: registry_abs_def fun_eq_iff map_of_eq_None_iff)
next
  case (3 i x xs)
  then have "m_identifier x \<noteq> m_identifier (xs ! i)" by (auto simp: nth_mem image_iff)
  with 3 show ?case by (auto simp: registry_abs_def fun_eq_iff)
qed auto


lemma registry_abs_member:
  "distinct (map m_identifier rs) \<Longrightarrow> r \<in> set rs \<Longrightarrow>
   registry_abs rs (m_identifier r) = Some (m_device r, m_devnode r)"
  by (induction rs) (auto simp: registry_abs_def rev_image_eqI)

lemma registry_inv_initial: "registry_inv {} registry_initial"
  by (simp add: registry_inv_def ids_ok_def owner_ok_def registry_initial_def
      udev_heap_empty_def udev_heap_ok_def)

lemma registry_inv_enumerate_add:
  assumes "registry_inv P s" and "sint (m_last_used_identifier s) < INT_MAX"
  shows "registry_inv P (enumerate_add_device found s)"
proof (cases found)
  case None
  with assms show ?thesis by (simp add: enumerate_add_device_def)
next
  case (Some d)
  obtain h u where new: "udev_device_new d (udev s) = (h, u)" by fastforce
  from registry_inv_new [OF assms(1) new]
  have "registry_inv (insert h P) (s\<lparr>udev := u\<rparr>)" and "h \<notin> P" by blast+
  with assms(2) have "registry_inv P (snd (add_device_to_records h (s\<lparr>udev := u\<rparr>)))"
    by (simp add: registry_inv_add)
  with Some new show ?thesis by (simp add: enumerate_add_device_def)
qed

lemma find_devnode_record_exact:
  assumes "c_string_ok dn"
    and "\<forall>r\<in>set rs. \<exists>d. m_devnode r = Some d \<and> (prefix dn d \<longrightarrow> d = dn)"
    and "List.find (\<lambda>r. m_devnode r = Some dn) rs = Some r"
  shows "\<exists>i. find_devnode_record dn rs = Inr (Some i) \<and> i < length rs \<and> rs ! i = r"
  using assms(2,3)
proof (induction rs)
  case (Cons r0 rs)
  from Cons.prems obtain d where d: "m_devnode r0 = Some d" and pd: "prefix dn d \<longrightarrow> d = dn"
    by auto
  show ?case
  proof (cases "d = dn")
    case True
    with d Cons.prems show ?thesis
      by (simp add: c_strncmp_eq_strlen [OF assms(1)])
  next
    case False
    with pd have "\<not> c_strncmp_eq dn d (length dn)"
      by (simp add: c_strncmp_eq_strlen [OF assms(1)])
    moreover from Cons.prems d False
    have "\<forall>r\<in>set rs. \<exists>d. m_devnode r = Some d \<and> (prefix dn d \<longrightarrow> d = dn)"
      and "List.find (\<lambda>r. m_devnode r = Some dn) rs = Some r" by auto
    then obtain i where "find_devnode_record dn rs = Inr (Some i) \<and> i < length rs \<and> rs ! i = r"
      using Cons.IH by blast
    ultimately show ?thesis using d by (auto intro!: exI [of _ "Suc i"])
  qed
qed simp

lemma find_devnode_record_no_prefix:
  assumes "c_string_ok dn" and "\<forall>r\<in>set rs. \<exists>d. m_devnode r = Some d \<and> \<not> prefix dn d"
  shows "find_devnode_record dn rs = Inr None"
  using assms(2)
  by (induction rs) (auto simp: c_strncmp_eq_strlen [OF assms(1)])

lemma find_devnode_record_first_prefix:
  assumes "c_string_ok dn"
    and "\<forall>r\<in>set (take j rs). \<exists>d. m_devnode r = Some d \<and> \<not> prefix dn d"
    and "j < length rs" and "m_devnode (rs ! j) = Some d'" and "prefix dn d'"
  shows "find_devnode_record dn rs = Inr (Some j)"
  using assms(2-)
proof (induction rs arbitrary: j)
  case (Cons r0 rs)
  show ?case
  proof (cases j)
    case 0
    with Cons.prems show ?thesis by (simp add: c_strncmp_eq_strlen [OF assms(1)])
  next
    case (Suc k)
    with Cons.prems obtain d where "m_devnode r0 = Some d" "\<not> prefix dn d" by auto
    moreover from Cons.prems Suc have "find_devnode_record dn rs = Inr (Some k)"
      by (intro Cons.IH) auto
    ultimately show ?thesis using Suc by (simp add: c_strncmp_eq_strlen [OF assms(1)])
  qed
qed simp

lemma registry_inv_ex_registry2: "registry_inv {} (ex_registry [a, b])"
proof -
  let ?s1 = "enumerate_add_device (Some (ex_usb_device a)) registry_initial"
  have i1: "registry_inv {} ?s1"
    by (rule registry_inv_enumerate_add [OF registry_inv_initial])
       (simp add: registry_initial_def INT_MAX_def)
  have "sint (m_last_used_identifier ?s1) < INT_MAX"
    by (simp add: enumerate_add_device_def registry_initial_def udev_device_new_def
        add_device_to_records_eq INT_MAX_def Let_def)
  from registry_inv_enumerate_add [OF i1 this] show ?thesis
    by (simp add: ex_registry_def)
qed

lemma ex_registry2_records:
  "m_device_records (ex_registry [a, b]) =
     [\<lparr>m_identifier = 1, m_device = 1, m_devnode = Some a\<rparr>,
      \<lparr>m_identifier = 2, m_device = 2, m_devnode = Some b\<rparr>]"
  by (simp add: ex_registry_def enumerate_add_device_def registry_initial_def udev_heap_empty_def
      udev_device_new_def add_device_to_records_eq udev_device_get_devnode_def ex_usb_device_def)

lemma ex_registry2_objects:
  "udev_objects (udev (ex_registry [a, b])) 2 = Some (ex_usb_device b)"
  by (simp add: ex_registry_def enumerate_add_device_def registry_initial_def udev_heap_empty_def
      udev_device_new_def add_device_to_records_eq)

section \<open>Properties of the registry\<close>

text \<open>
  C1. Adding a device takes the next identifier: below \<open>INT_MAX\<close> it is one more than
  the counter, larger than every identifier in the registry (so never one in use or used
  before), the counter moves to it, and the identifier invariant still holds.
\<close>

theorem add_device_to_records_fresh_identifier:
  assumes "ids_ok s" and "sint (m_last_used_identifier s) < INT_MAX"
    and "add_device_to_records h s = ((ok, identifier), s')"
  shows "ok \<and> sint identifier = sint (m_last_used_identifier s) + 1 \<and>
    (\<forall>r\<in>set (m_device_records s). sint (m_identifier r) < sint identifier) \<and>
    m_last_used_identifier s' = identifier \<and> ids_ok s'"
proof -
  from assms(3) have ok: "ok" and id: "identifier = m_last_used_identifier s + 1"
    and s': "s' = snd (add_device_to_records h s)"
    by (auto simp: add_device_to_records_eq)
  from assms(2) id have n: "sint identifier = sint (m_last_used_identifier s) + 1"
    by (simp add: sint_incr)
  from assms(1) n have "\<forall>r\<in>set (m_device_records s). sint (m_identifier r) < sint identifier"
    by (auto simp: ids_ok_def)
  moreover from assms(1,2) s' have "ids_ok s'" by (simp add: ids_ok_add)
  ultimately show ?thesis using ok n id s' by (simp add: add_device_to_records_eq)
qed

theorem add_device_to_records_fresh_identifier_witness:
  "m_last_used_identifier (snd (add_device_to_records 1 registry_initial)) = 1 \<and>
   ids_ok (snd (add_device_to_records 1 registry_initial))"
proof -
  have a: "ids_ok registry_initial" by (simp add: ids_ok_def registry_initial_def)
  have b: "sint (m_last_used_identifier registry_initial) < INT_MAX"
    by (simp add: registry_initial_def INT_MAX_def)
  have c: "add_device_to_records 1 registry_initial =
      ((True, 1), snd (add_device_to_records 1 registry_initial))"
    by (simp add: add_device_to_records_eq registry_initial_def)
  from add_device_to_records_fresh_identifier [OF a b c] show ?thesis
    by (simp add: registry_initial_def)
qed

text \<open>
  C2. Adding a device refines the abstract registry: the identifier-indexed map gains
  exactly the new identifier, bound to the stored handle and its node path.
\<close>

theorem add_device_to_records_refines:
  assumes "ids_ok s" and "sint (m_last_used_identifier s) < INT_MAX"
    and "add_device_to_records h s = ((ok, identifier), s')"
  shows "registry_abs (m_device_records s') =
     (registry_abs (m_device_records s))(identifier \<mapsto> (h, udev_device_get_devnode (udev s) h))"
proof -
  from assms(3) have id: "identifier = m_last_used_identifier s + 1"
    and s': "m_device_records s' = m_device_records s @
       [\<lparr>m_identifier = identifier, m_device = h, m_devnode = udev_device_get_devnode (udev s) h\<rparr>]"
    by (auto simp: add_device_to_records_eq)
  from assms(2) id have n: "sint identifier = sint (m_last_used_identifier s) + 1"
    by (simp add: sint_incr)
  from assms(1) n have "identifier \<notin> set (map m_identifier (m_device_records s))"
    by (auto simp: ids_ok_def)
  with s' show ?thesis by (simp add: registry_abs_append_fresh)
qed

theorem add_device_to_records_refines_witness:
  "registry_abs (m_device_records (snd (add_device_to_records 1 registry_initial))) =
   [1 \<mapsto> (1, None)]"
proof -
  have a: "ids_ok registry_initial" by (simp add: ids_ok_def registry_initial_def)
  have b: "sint (m_last_used_identifier registry_initial) < INT_MAX"
    by (simp add: registry_initial_def INT_MAX_def)
  have c: "add_device_to_records 1 registry_initial =
      ((True, 1), snd (add_device_to_records 1 registry_initial))"
    by (simp add: add_device_to_records_eq registry_initial_def)
  from add_device_to_records_refines [OF a b c] show ?thesis
    by (simp add: registry_initial_def registry_abs_def udev_device_get_devnode_def
        udev_heap_empty_def)
qed

text \<open>
  C3. Removal refines the abstract registry when node paths are compared in full: if no
  stored node path strictly extends the incoming one, \<open>remove_device_from_records\<close>
  removes the first record whose node path equals it, reports its identifier, deletes
  exactly that identifier from the abstract map and keeps the registry invariant.
\<close>

theorem remove_device_from_records_exact:
  assumes inv: "registry_inv P s"
    and dn: "udev_device_get_devnode (udev s) device = Some dn" "c_string_ok dn"
    and no_ext: "\<forall>r\<in>set (m_device_records s). \<exists>d. m_devnode r = Some d \<and> (prefix dn d \<longrightarrow> d = dn)"
    and first: "List.find (\<lambda>r. m_devnode r = Some dn) (m_device_records s) = Some r"
  shows "\<exists>s'. remove_device_from_records device s = Inr ((True, m_identifier r), s') \<and>
    registry_abs (m_device_records s') = (registry_abs (m_device_records s))(m_identifier r := None) \<and>
    registry_inv P s'"
proof -
  let ?rs = "m_device_records s"
  obtain i where f: "find_devnode_record dn ?rs = Inr (Some i)" and i: "i < length ?rs"
    and ri: "?rs ! i = r"
    using find_devnode_record_exact [OF dn(2) no_ext first] by blast
  let ?s' = "s\<lparr>udev := device_record_destroy r (udev s), m_device_records := erase_at i ?rs\<rparr>"
  have rm: "remove_device_from_records device s = Inr ((True, m_identifier r), ?s')"
    using dn(1) f ri by (simp add: remove_device_from_records_def)
  from inv have "distinct (map m_identifier ?rs)"
    by (simp add: registry_inv_def ids_ok_distinct)
  with i ri have "registry_abs (erase_at i ?rs) = (registry_abs ?rs)(m_identifier r := None)"
    by (metis registry_abs_erase)
  moreover from rm inv have "registry_inv P ?s'" by (rule registry_inv_remove)
  ultimately show ?thesis using rm by simp
qed

text \<open>
  C4. A "remove" for which nothing matches is a no-op: when the incoming device has no
  node path, or no stored node path starts with it, \<open>remove_device_from_records\<close>
  reports \<open>(false, -1)\<close> and leaves the registry and the heap unchanged.
\<close>

theorem remove_device_from_records_not_found:
  assumes "udev_device_get_devnode (udev s) device = None \<or>
     (\<exists>dn. udev_device_get_devnode (udev s) device = Some dn \<and> c_string_ok dn \<and>
        (\<forall>r\<in>set (m_device_records s). \<exists>d. m_devnode r = Some d \<and> \<not> prefix dn d))"
  shows "remove_device_from_records device s = Inr ((False, -1), s)"
  using assms
proof
  assume "udev_device_get_devnode (udev s) device = None"
  then show ?thesis by (simp add: remove_device_from_records_def)
next
  assume "\<exists>dn. udev_device_get_devnode (udev s) device = Some dn \<and> c_string_ok dn \<and>
        (\<forall>r\<in>set (m_device_records s). \<exists>d. m_devnode r = Some d \<and> \<not> prefix dn d)"
  then obtain dn where "udev_device_get_devnode (udev s) device = Some dn" and "c_string_ok dn"
    and "\<forall>r\<in>set (m_device_records s). \<exists>d. m_devnode r = Some d \<and> \<not> prefix dn d"
    by blast
  then show ?thesis
    by (simp add: remove_device_from_records_def find_devnode_record_no_prefix)
qed

text \<open>
  C5. The prefix comparison removes the wrong device (spec section 9): when the first
  stored node path that starts with the incoming one strictly extends it (\<open>001/0021\<close>
  for \<open>001/002\<close>), \<open>remove_device_from_records\<close> removes that record and reports its
  identifier, while the record of the departed device stays registered.
\<close>

theorem remove_device_from_records_prefix_match:
  assumes inv: "registry_inv P s"
    and dn: "udev_device_get_devnode (udev s) device = Some dn" "c_string_ok dn"
    and before: "\<forall>r\<in>set (take j (m_device_records s)). \<exists>d. m_devnode r = Some d \<and> \<not> prefix dn d"
    and j: "j < length (m_device_records s)"
    and ext: "m_devnode (m_device_records s ! j) = Some d'" "prefix dn d'" "d' \<noteq> dn"
    and exact: "r \<in> set (m_device_records s)" "m_devnode r = Some dn"
  shows "\<exists>s'. remove_device_from_records device s = Inr ((True, m_identifier (m_device_records s ! j)), s') \<and>
    m_identifier (m_device_records s ! j) \<noteq> m_identifier r \<and>
    registry_abs (m_device_records s') (m_identifier (m_device_records s ! j)) = None \<and>
    registry_abs (m_device_records s') (m_identifier r) = Some (m_device r, Some dn)"
proof -
  let ?rs = "m_device_records s" and ?q = "m_device_records s ! j"
  have f: "find_devnode_record dn ?rs = Inr (Some j)"
    by (rule find_devnode_record_first_prefix [OF dn(2) before j ext(1,2)])
  let ?s' = "s\<lparr>udev := device_record_destroy ?q (udev s), m_device_records := erase_at j ?rs\<rparr>"
  have rm: "remove_device_from_records device s = Inr ((True, m_identifier ?q), ?s')"
    using dn(1) f by (simp add: remove_device_from_records_def Let_def)
  from inv have dist: "distinct (map m_identifier ?rs)"
    by (simp add: registry_inv_def ids_ok_distinct)
  from exact obtain k where k: "k < length ?rs" "?rs ! k = r" by (auto simp: in_set_conv_nth)
  with ext exact have "k \<noteq> j" by auto
  with dist j k have ne: "m_identifier ?q \<noteq> m_identifier r" by (auto simp: distinct_conv_nth)
  from dist j have abs: "registry_abs (erase_at j ?rs) = (registry_abs ?rs)(m_identifier ?q := None)"
    by (rule registry_abs_erase)
  from registry_abs_member [OF dist exact(1)] exact(2) ne rm abs show ?thesis by simp
qed

theorem remove_device_from_records_prefix_match_witness:
  "\<exists>s'. remove_device_from_records (fst (ex_remove_event [ex_node_long, ex_node_short] ex_node_short))
          (snd (ex_remove_event [ex_node_long, ex_node_short] ex_node_short)) = Inr ((True, 1), s') \<and>
     registry_abs (m_device_records s') 1 = None \<and> registry_abs (m_device_records s') 2 = Some (2, Some ex_node_short)"
proof -
  let ?s = "ex_registry [ex_node_long, ex_node_short]"
  obtain h u where new: "udev_device_new (ex_usb_device ex_node_short) (udev ?s) = (h, u)" by fastforce
  have ev: "ex_remove_event [ex_node_long, ex_node_short] ex_node_short = (h, ?s\<lparr>udev := u\<rparr>)"
    using new by (simp add: ex_remove_event_def)
  have inv: "registry_inv {h} (?s\<lparr>udev := u\<rparr>)"
    using registry_inv_new [OF registry_inv_ex_registry2 new] by blast
  let ?r1 = "\<lparr>m_identifier = 1, m_device = 1, m_devnode = Some ex_node_long\<rparr>"
  let ?r2 = "\<lparr>m_identifier = 2, m_device = 2, m_devnode = Some ex_node_short\<rparr>"
  have recs: "m_device_records (?s\<lparr>udev := u\<rparr>) = [?r1, ?r2]"
    by (simp add: ex_registry2_records)
  have dn: "udev_device_get_devnode (udev (?s\<lparr>udev := u\<rparr>)) h = Some ex_node_short"
    using new by (auto simp: udev_device_new_def udev_device_get_devnode_def ex_usb_device_def Let_def)
  have ok: "c_string_ok ex_node_short" by (simp add: c_string_ok_def ex_node_short_def NUL_def)
  have pre: "prefix ex_node_short ex_node_long" "ex_node_long \<noteq> ex_node_short"
    by (simp_all add: ex_node_short_def ex_node_long_def)
  from remove_device_from_records_prefix_match [OF inv dn ok, of 0 ex_node_long ?r2] ev recs pre
  show ?thesis by simp
qed

theorem remove_device_from_records_exact_witness:
  "\<exists>s'. remove_device_from_records (fst (ex_remove_event [ex_node_short] ex_node_short))
          (snd (ex_remove_event [ex_node_short] ex_node_short)) = Inr ((True, 1), s') \<and>
     registry_abs (m_device_records s') = Map.empty \<and>
     registry_inv {fst (ex_remove_event [ex_node_short] ex_node_short)} s'"
proof -
  let ?d = "ex_usb_device ex_node_short"
  let ?s1 = "enumerate_add_device (Some ?d) registry_initial"
  obtain h u where new: "udev_device_new ?d (udev ?s1) = (h, u)" by fastforce
  have ev: "ex_remove_event [ex_node_short] ex_node_short = (h, ?s1\<lparr>udev := u\<rparr>)"
    using new by (simp add: ex_remove_event_def ex_registry_def)
  have "registry_inv {} ?s1"
    by (rule registry_inv_enumerate_add [OF registry_inv_initial])
       (simp add: registry_initial_def INT_MAX_def)
  then have inv: "registry_inv {h} (?s1\<lparr>udev := u\<rparr>)"
    using registry_inv_new [OF _ new] by blast
  let ?r = "\<lparr>m_identifier = 1, m_device = 1, m_devnode = Some ex_node_short\<rparr>"
  have recs: "m_device_records (?s1\<lparr>udev := u\<rparr>) = [?r]"
    by (simp add: enumerate_add_device_def registry_initial_def udev_heap_empty_def
        udev_device_new_def add_device_to_records_eq udev_device_get_devnode_def ex_usb_device_def)
  have dn: "udev_device_get_devnode (udev (?s1\<lparr>udev := u\<rparr>)) h = Some ex_node_short"
    using new by (auto simp: udev_device_new_def udev_device_get_devnode_def ex_usb_device_def Let_def)
  have ok: "c_string_ok ex_node_short" by (simp add: c_string_ok_def ex_node_short_def NUL_def)
  have no_ext: "\<forall>r\<in>set (m_device_records (?s1\<lparr>udev := u\<rparr>)). \<exists>d. m_devnode r = Some d \<and>
      (prefix ex_node_short d \<longrightarrow> d = ex_node_short)"
    by (simp add: recs)
  have first: "List.find (\<lambda>r. m_devnode r = Some ex_node_short) (m_device_records (?s1\<lparr>udev := u\<rparr>)) = Some ?r"
    by (simp add: recs)
  from remove_device_from_records_exact [OF inv dn ok no_ext first] ev recs
  show ?thesis by (simp add: registry_abs_def)
qed

theorem remove_device_from_records_not_found_witness:
  "remove_device_from_records (fst (ex_remove_event [ex_node_other] ex_node_short))
     (snd (ex_remove_event [ex_node_other] ex_node_short)) =
   Inr ((False, -1), snd (ex_remove_event [ex_node_other] ex_node_short))"
proof (rule remove_device_from_records_not_found, rule disjI2, rule exI [of _ ex_node_short])
  show "udev_device_get_devnode (udev (snd (ex_remove_event [ex_node_other] ex_node_short)))
      (fst (ex_remove_event [ex_node_other] ex_node_short)) = Some ex_node_short \<and>
    c_string_ok ex_node_short \<and>
    (\<forall>r\<in>set (m_device_records (snd (ex_remove_event [ex_node_other] ex_node_short))).
        \<exists>d. m_devnode r = Some d \<and> \<not> prefix ex_node_short d)"
    by (simp add: ex_remove_event_def ex_registry_def enumerate_add_device_def
      registry_initial_def udev_heap_empty_def udev_device_new_def add_device_to_records_eq
      udev_device_get_devnode_def ex_usb_device_def c_string_ok_def NUL_def
      ex_node_short_def ex_node_other_def)
qed

text \<open>
  C6. Resetting the registry releases every device reference it held, frees every stored
  object, empties the list and keeps the identifier counter, so that identifiers are not
  reused after a re-enumeration or \<open>term\<close>.
\<close>

theorem reset_device_records_releases_all:
  assumes "registry_inv {} s"
  shows "m_device_records (reset_device_records s) = [] \<and>
    m_last_used_identifier (reset_device_records s) = m_last_used_identifier s \<and>
    (\<forall>h. udev_refs (udev (reset_device_records s)) h = 0) \<and>
    (\<forall>r\<in>set (m_device_records s). udev_objects (udev (reset_device_records s)) (m_device r) = None) \<and>
    registry_inv {} (reset_device_records s)"
proof (cases "m_device_records s = []")
  case True
  with assms show ?thesis
    by (simp add: reset_device_records_def registry_inv_def owner_ok_def)
next
  case False
  let ?rs = "m_device_records s"
  from assms have d: "distinct (map m_device ?rs)"
    and one: "\<forall>r\<in>set ?rs. udev_refs (udev s) (m_device r) = 1"
    and refs: "\<forall>h. udev_refs (udev s) h = (if h \<in> m_device ` set ?rs then 1 else 0)"
    by (auto simp: registry_inv_def owner_ok_def)
  note f = fold_destroy [OF d one]
  from False f refs have "m_device_records (reset_device_records s) = [] \<and>
    m_last_used_identifier (reset_device_records s) = m_last_used_identifier s \<and>
    (\<forall>h. udev_refs (udev (reset_device_records s)) h = 0) \<and>
    (\<forall>r\<in>set ?rs. udev_objects (udev (reset_device_records s)) (m_device r) = None)"
    by (simp add: reset_device_records_def)
  moreover from assms have "registry_inv {} (reset_device_records s)"
    by (rule registry_inv_reset)
  ultimately show ?thesis by blast
qed

theorem reset_device_records_releases_all_witness:
  "m_device_records (reset_device_records (ex_registry [ex_node_short, ex_node_other])) = [] \<and>
   udev_refs (udev (reset_device_records (ex_registry [ex_node_short, ex_node_other]))) 1 = 0 \<and>
   udev_objects (udev (reset_device_records (ex_registry [ex_node_short, ex_node_other]))) 2 = None"
proof -
  have h: "m_device r \<in> {1, 2}" if "r \<in> set (m_device_records (ex_registry [ex_node_short, ex_node_other]))" for r
    using that by (auto simp: ex_registry_def enumerate_add_device_def registry_initial_def
        udev_heap_empty_def udev_device_new_def add_device_to_records_eq)
  have m2: "\<exists>r\<in>set (m_device_records (ex_registry [ex_node_short, ex_node_other])). m_device r = 2"
    by (simp add: ex_registry_def enumerate_add_device_def registry_initial_def
        udev_heap_empty_def udev_device_new_def add_device_to_records_eq)
  from reset_device_records_releases_all [OF registry_inv_ex_registry2] m2
  show ?thesis by fastforce
qed

text \<open>
  C7. The counter is not guarded against roll-over (\<open>TODO: handle roll-over\<close>, line
  532): at \<open>INT_MAX\<close> the next identifier wraps to the most negative \<open>int\<close>, and the
  registry no longer satisfies the identifier invariant.
\<close>

theorem add_device_to_records_rollover:
  assumes "sint (m_last_used_identifier s) = INT_MAX"
  shows "sint (snd (fst (add_device_to_records h s))) = - (2 ^ 31) \<and>
    \<not> ids_ok (snd (add_device_to_records h s))"
proof -
  have w: "sint (m_last_used_identifier s + 1) = - (2 ^ 31)"
    using assms by (rule sint_incr_wraps)
  then show ?thesis by (simp add: add_device_to_records_eq ids_ok_def)
qed

theorem add_device_to_records_rollover_witness:
  "sint (snd (fst (add_device_to_records 1 (registry_initial\<lparr>m_last_used_identifier := 0x7FFFFFFF\<rparr>))))
     = - (2 ^ 31)"
proof -
  have "sint (m_last_used_identifier (registry_initial\<lparr>m_last_used_identifier := 0x7FFFFFFF\<rparr>)) = INT_MAX"
    by (simp add: INT_MAX_def)
  from add_device_to_records_rollover [OF this] show ?thesis by blast
qed

text \<open>
  C21. The count that \<open>get_connected_devices_list\<close> narrows from \<open>size_t\<close> to
  \<open>int\<close> (line 361) is a well-typed \<open>int\<close> equal to the number of records, and the
  identifier array is written exactly when there are records: the identifier invariant
  bounds the registry by \<open>INT_MAX\<close> entries, so the conversion never truncates.
\<close>

theorem get_connected_devices_list_size_type:
  assumes "ids_ok s"
  shows "sint (fst (get_connected_devices_list s)) = int (length (m_device_records s)) \<and>
    (snd (get_connected_devices_list s) = None \<longleftrightarrow> m_device_records s = [])"
proof -
  have n: "sint (word_of_nat (length (m_device_records s)) :: c_int) = int (length (m_device_records s))"
    by (rule sint_of_nat_range [OF ids_ok_length_le [OF assms]])
  then have "(word_of_nat (length (m_device_records s)) :: c_int) = 0 \<longleftrightarrow> m_device_records s = []"
    by (metis length_0_conv of_nat_eq_0_iff signed_eq_0_iff)
  with n show ?thesis by (simp add: get_connected_devices_list_def Let_def)
qed

theorem get_connected_devices_list_size_type_witness:
  "sint (fst (get_connected_devices_list (ex_registry [ex_node_short, ex_node_other]))) = 2 \<and>
   snd (get_connected_devices_list (ex_registry [ex_node_short, ex_node_other])) \<noteq> None"
  using get_connected_devices_list_size_type
      [OF registry_inv_ex_registry2 [THEN registry_inv_heap_ok [THEN iffD1], THEN conjunct1]]
  by (simp add: ex_registry2_records)

end
