(* ===== verification/Dispatcher.thy ===== *)
theory Dispatcher
  imports Registry
begin

text \<open>
  The state of \<open>class device_manager\<close> (\<open>usbctrl.cpp\<close> lines 95--105) as an extension
  of the registry record, and the callback dispatcher: the single slot
  \<open>m_callback\<close>/\<open>m_callback_data\<close> and the notification the monitor thread sends
  after a registry change (lines 503--506 and 520--523). A function pointer and the
  opaque payload are addresses; \<open>None\<close> and \<open>0\<close> are NULL. A call of the callback is
  recorded as a \<open>notification\<close> value, in the order the calls happen.
  The fields \<open>m_udev_context\<close>, \<open>m_monitor\<close>, \<open>m_monitor_thread\<close> and
  \<open>m_control_pipe\<close> record what the constructor obtained (non-zero for success), for the
  lifecycle model.
\<close>

type_synonym callback = nat
type_synonym payload = nat

record device_manager = registry +
  m_callback :: "callback option"
  m_callback_data :: payload
  m_enable_monitoring :: bool
  m_udev_context :: nat
  m_monitor :: nat
  m_monitor_thread :: nat
  m_control_pipe :: "int \<times> int"

datatype notification = Notify callback c_int int payload

text \<open>
  \<open>if((result) && (m_callback)) m_callback(identifier, connected, m_callback_data);\<close>
\<close>

definition dispatch_callback ::
  "bool \<Rightarrow> c_int \<Rightarrow> int \<Rightarrow> 'a device_manager_scheme \<Rightarrow> notification list" where
  "dispatch_callback result identifier connected s =
     (if result
      then (case m_callback s of
              None \<Rightarrow> []
            | Some cb \<Rightarrow> [Notify cb identifier connected (m_callback_data s)])
      else [])"

text \<open>
  The fields outside the registry that the monitor's event handling never writes.
\<close>

definition manager_slots_eq :: "'a device_manager_scheme \<Rightarrow> 'a device_manager_scheme \<Rightarrow> bool" where
  "manager_slots_eq s s' \<longleftrightarrow>
     m_callback s' = m_callback s \<and> m_callback_data s' = m_callback_data s \<and>
     m_enable_monitoring s' = m_enable_monitoring s \<and> m_udev_context s' = m_udev_context s \<and>
     m_monitor s' = m_monitor s \<and> m_monitor_thread s' = m_monitor_thread s \<and>
     m_control_pipe s' = m_control_pipe s \<and> device_manager.more s' = device_manager.more s"

text \<open>The notification depends on the state only through the callback slot.\<close>

lemma dispatch_callback_slot:
  assumes "m_callback s' = m_callback s" and "m_callback_data s' = m_callback_data s"
  shows "dispatch_callback r i c s' = dispatch_callback r i c s"
  using assms by (simp add: dispatch_callback_def split: option.split)

lemma dispatch_callback_registry_update [simp]:
  "dispatch_callback r i c (s\<lparr>udev := x\<rparr>) = dispatch_callback r i c s"
  "dispatch_callback r i c (s\<lparr>m_device_records := y\<rparr>) = dispatch_callback r i c s"
  "dispatch_callback r i c (s\<lparr>m_last_used_identifier := z\<rparr>) = dispatch_callback r i c s"
  by (simp_all add: dispatch_callback_def split: option.split)

end
