(* ===== verification/Monitor.thy ===== *)
theory Monitor
  imports Dispatcher
begin

text \<open>
  The monitor thread of \<open>usbctrl.cpp\<close>: \<open>process_udev_monitor_event\<close> (lines 480--529),
  \<open>process_control_event\<close> (lines 279--290) and \<open>monitor_for_changes\<close> (lines
  292--340). Each pass of the \<open>while\<close> loop blocks in \<open>select\<close> on the control pipe
  and the udev monitor; what \<open>select\<close>, \<open>read\<close> and
  \<open>udev_monitor_receive_device\<close> return is the environment's choice, given as a
  \<open>wakeup\<close>. The loop runs over the list of wake-ups the environment delivers: it stops
  when \<open>m_enable_monitoring\<close> is cleared, faults when the code dereferences NULL, and is
  still waiting in \<open>select\<close> (it blocks with no timeout) when the list is exhausted.
\<close>

record wakeup =
  select_ret :: int
  control_ready :: bool
  monitor_ready :: bool
  control_read :: int
  received :: "udev_device option"

datatype 's loop_outcome =
    Loop_stopped 's "notification list"
  | Loop_waiting 's "notification list"
  | Loop_fault fault "notification list"

definition UDEV_ADD_EVENT :: cstring where
  "UDEV_ADD_EVENT = ''add''"

definition UDEV_REMOVE_EVENT :: cstring where
  "UDEV_REMOVE_EVENT = ''remove''"

text \<open>
  One monitor event: the received device object is new, with one reference held by the
  thread. An "add" hands the reference to the registry; a "remove" and any other action
  release it. The action is compared with \<open>strncmp(action, "add", strlen("add"))\<close>.
\<close>

definition process_udev_monitor_event ::
  "udev_device option \<Rightarrow> 'a device_manager_scheme \<Rightarrow>
   fault + 'a device_manager_scheme \<times> notification list" where
  "process_udev_monitor_event found s =
     (case found of
        None \<Rightarrow> Inr (s, [])
      | Some d \<Rightarrow>
          (let (device, u) = udev_device_new d (udev s);
               s1 = s\<lparr>udev := u\<rparr>
           in case udev_device_get_action (udev s1) device of
                None \<Rightarrow> Inl Null_dereference
              | Some action \<Rightarrow>
                  if c_strncmp_eq action UDEV_ADD_EVENT (length UDEV_ADD_EVENT) then
                    (let ((result, identifier), s2) = add_device_to_records device s1
                     in Inr (s2, dispatch_callback result identifier 1 s2))
                  else if c_strncmp_eq action UDEV_REMOVE_EVENT (length UDEV_REMOVE_EVENT) then
                    (case remove_device_from_records device s1 of
                       Inl f \<Rightarrow> Inl f
                     | Inr ((result, identifier), s2) \<Rightarrow>
                         (let s3 = s2\<lparr>udev := udev_device_unref device (udev s2)\<rparr>
                          in Inr (s3, dispatch_callback result identifier 0 s3)))
                  else Inr (s1\<lparr>udev := udev_device_unref device (udev s1)\<rparr>, [])))"

text \<open>\<open>read\<close> on the control pipe returning 0 (end of file) asks for shutdown.\<close>

definition process_control_event :: "int \<Rightarrow> 'a device_manager_scheme \<Rightarrow> 'a device_manager_scheme" where
  "process_control_event n s = (if 0 = n then s\<lparr>m_enable_monitoring := False\<rparr> else s)"

text \<open>
  One pass of the loop body: \<open>select\<close> returning 0 stops the loop (\<open>break\<close> with the
  flag cleared), a negative value clears the flag; otherwise the control pipe is served
  first and the udev monitor second, both in the same pass when both are ready.
\<close>

definition monitor_iteration ::
  "wakeup \<Rightarrow> 'a device_manager_scheme \<Rightarrow> fault + 'a device_manager_scheme \<times> notification list" where
  "monitor_iteration w s =
     (let ret = select_ret w
      in if 0 = ret then Inr (s\<lparr>m_enable_monitoring := False\<rparr>, [])
         else if 0 < ret then
           (let s1 = (if control_ready w then process_control_event (control_read w) s else s)
            in if monitor_ready w then process_udev_monitor_event (received w) s1 else Inr (s1, []))
         else Inr (s\<lparr>m_enable_monitoring := False\<rparr>, []))"

fun prepend_notifications :: "notification list \<Rightarrow> 's loop_outcome \<Rightarrow> 's loop_outcome" where
  "prepend_notifications ns (Loop_stopped s ms) = Loop_stopped s (ns @ ms)"
| "prepend_notifications ns (Loop_waiting s ms) = Loop_waiting s (ns @ ms)"
| "prepend_notifications ns (Loop_fault f ms) = Loop_fault f (ns @ ms)"

fun monitor_loop :: "wakeup list \<Rightarrow> 'a device_manager_scheme \<Rightarrow> 'a device_manager_scheme loop_outcome" where
  "monitor_loop [] s = (if m_enable_monitoring s then Loop_waiting s [] else Loop_stopped s [])"
| "monitor_loop (w # ws) s =
     (if m_enable_monitoring s then
        (case monitor_iteration w s of
           Inl f \<Rightarrow> Loop_fault f []
         | Inr (s', ns) \<Rightarrow> prepend_notifications ns (monitor_loop ws s'))
      else Loop_stopped s [])"

text \<open>
  \<open>monitor_for_changes\<close>: a udev monitor descriptor that is not positive ends the
  thread at once; otherwise the loop runs.
\<close>

definition monitor_for_changes ::
  "int \<Rightarrow> wakeup list \<Rightarrow> 'a device_manager_scheme \<Rightarrow> 'a device_manager_scheme loop_outcome" where
  "monitor_for_changes monitor_fd ws s =
     (if monitor_fd \<le> 0 then Loop_stopped s [] else monitor_loop ws s)"

text \<open>The state a loop outcome ends in, when it ends without a fault.\<close>

fun loop_state :: "'s loop_outcome \<Rightarrow> 's option" where
  "loop_state (Loop_stopped s ns) = Some s"
| "loop_state (Loop_waiting s ns) = Some s"
| "loop_state (Loop_fault f ns) = None"

fun loop_notifications :: "'s loop_outcome \<Rightarrow> notification list" where
  "loop_notifications (Loop_stopped s ns) = ns"
| "loop_notifications (Loop_waiting s ns) = ns"
| "loop_notifications (Loop_fault f ns) = ns"

text \<open>A manager state around a given registry, for the examples.\<close>

definition ex_manager :: "registry \<Rightarrow> callback option \<Rightarrow> device_manager" where
  "ex_manager r cb =
     \<lparr>m_device_records = m_device_records r, m_last_used_identifier = m_last_used_identifier r,
      udev = udev r, m_callback = cb, m_callback_data = 7, m_enable_monitoring = True,
      m_udev_context = 1, m_monitor = 1, m_monitor_thread = 1, m_control_pipe = (3, 4)\<rparr>"

definition ex_wakeup :: "udev_device option \<Rightarrow> wakeup" where
  "ex_wakeup found =
     \<lparr>select_ret = 1, control_ready = False, monitor_ready = True, control_read = 1,
      received = found\<rparr>"

definition ex_eof_wakeup :: wakeup where
  "ex_eof_wakeup =
     \<lparr>select_ret = 1, control_ready = True, monitor_ready = False, control_read = 0,
      received = None\<rparr>"

definition ex_remove_device :: "cstring \<Rightarrow> udev_device" where
  "ex_remove_device node = (ex_usb_device node)\<lparr>dev_action := Some ''remove''\<rparr>"

section \<open>Lemmas on the monitor thread\<close>

lemma process_udev_monitor_event_cases:
  assumes ev: "process_udev_monitor_event (Some d) s = Inr (s', ns)"
    and new: "udev_device_new d (udev s) = (h, u)"
  obtains (add) action where "dev_action d = Some action"
      "c_strncmp_eq action UDEV_ADD_EVENT (length UDEV_ADD_EVENT)"
      "s' = snd (add_device_to_records h (s\<lparr>udev := u\<rparr>))"
      "ns = dispatch_callback True (m_last_used_identifier s + 1) 1 s"
  | (remove) action result ident s2 where "dev_action d = Some action"
      "\<not> c_strncmp_eq action UDEV_ADD_EVENT (length UDEV_ADD_EVENT)"
      "c_strncmp_eq action UDEV_REMOVE_EVENT (length UDEV_REMOVE_EVENT)"
      "remove_device_from_records h (s\<lparr>udev := u\<rparr>) = Inr ((result, ident), s2)"
      "s' = s2\<lparr>udev := udev_device_unref h (udev s2)\<rparr>"
      "ns = dispatch_callback result ident 0 s"
  | (other) action where "dev_action d = Some action"
      "\<not> c_strncmp_eq action UDEV_ADD_EVENT (length UDEV_ADD_EVENT)"
      "\<not> c_strncmp_eq action UDEV_REMOVE_EVENT (length UDEV_REMOVE_EVENT)"
      "s' = s\<lparr>udev := udev_device_unref h u\<rparr>" "ns = []"
proof -
  note nf = udev_device_new_fields [OF new]
  have act: "udev_device_get_action u h = dev_action d"
    by (simp add: udev_device_get_action_def nf)
  obtain action where a: "dev_action d = Some action"
    using ev new act by (cases "dev_action d") (simp_all add: process_udev_monitor_event_def)
  show ?thesis
  proof (cases "c_strncmp_eq action UDEV_ADD_EVENT (length UDEV_ADD_EVENT)")
    case True
    with ev new act a have "s' = snd (add_device_to_records h (s\<lparr>udev := u\<rparr>))"
      "ns = dispatch_callback True (m_last_used_identifier s + 1) 1 s"
      by (simp_all add: process_udev_monitor_event_def add_device_to_records_eq)
    with a True show ?thesis by (rule add)
  next
    case notadd: False
    show ?thesis
    proof (cases "c_strncmp_eq action UDEV_REMOVE_EVENT (length UDEV_REMOVE_EVENT)")
      case True
      obtain result ident s2 where rm: "remove_device_from_records h (s\<lparr>udev := u\<rparr>) = Inr ((result, ident), s2)"
        using ev new act a notadd True
        by (cases "remove_device_from_records h (s\<lparr>udev := u\<rparr>)")
           (auto simp: process_udev_monitor_event_def)
      have slot: "m_callback s2 = m_callback s" "m_callback_data s2 = m_callback_data s"
        using remove_device_from_records_cases [OF rm] by auto
      from new act a notadd True rm have "process_udev_monitor_event (Some d) s =
          Inr (s2\<lparr>udev := udev_device_unref h (udev s2)\<rparr>, dispatch_callback result ident 0 s2)"
        by (simp add: process_udev_monitor_event_def)
      with ev have "s' = s2\<lparr>udev := udev_device_unref h (udev s2)\<rparr>"
        "ns = dispatch_callback result ident 0 s2" by simp_all
      moreover have "dispatch_callback result ident 0 s2 = dispatch_callback result ident 0 s"
        using slot by (rule dispatch_callback_slot)
      ultimately show ?thesis using a notadd True rm by (intro remove) simp_all
    next
      case False
      with ev new act a notadd have "s' = s\<lparr>udev := udev_device_unref h u\<rparr>" "ns = []"
        by (simp_all add: process_udev_monitor_event_def)
      with a notadd False show ?thesis by (rule other)
    qed
  qed
qed


lemma manager_slots_eq_registry [simp]:
  "manager_slots_eq s (s\<lparr>udev := u\<rparr>)"
  "manager_slots_eq s (s\<lparr>udev := u, m_device_records := rs\<rparr>)"
  "manager_slots_eq s (s\<lparr>m_last_used_identifier := n, m_device_records := rs\<rparr>)"
  "manager_slots_eq s s"
  by (simp_all add: manager_slots_eq_def)

lemma manager_slots_eq_trans:
  "manager_slots_eq s s1 \<Longrightarrow> manager_slots_eq s1 s2 \<Longrightarrow> manager_slots_eq s s2"
  by (simp add: manager_slots_eq_def)

lemma process_udev_monitor_event_slots:
  assumes ev: "process_udev_monitor_event found s = Inr (s', ns)"
  shows "manager_slots_eq s s'"
proof (cases found)
  case None
  with ev show ?thesis by (simp add: process_udev_monitor_event_def)
next
  case (Some d)
  obtain h u where new: "udev_device_new d (udev s) = (h, u)" by fastforce
  from ev Some have ev': "process_udev_monitor_event (Some d) s = Inr (s', ns)" by simp
  show ?thesis
  using ev' new
  proof (cases rule: process_udev_monitor_event_cases)
    case add
    then show ?thesis by (simp add: add_device_to_records_eq manager_slots_eq_def)
  next
    case (remove action result ident s2)
    from remove_device_from_records_cases [OF remove(4)] remove(5) show ?thesis
      by (auto simp: manager_slots_eq_def)
  next
    case other
    then show ?thesis by simp
  qed
qed

lemma process_udev_monitor_event_inv:
  assumes inv: "registry_inv {} s" and room: "sint (m_last_used_identifier s) < INT_MAX"
    and ev: "process_udev_monitor_event found s = Inr (s', ns)"
  shows "registry_inv {} s' \<and> manager_slots_eq s s' \<and>
    (m_last_used_identifier s' = m_last_used_identifier s \<or>
     m_last_used_identifier s' = m_last_used_identifier s + 1)"
proof (cases found)
  case None
  with ev inv show ?thesis by (simp add: process_udev_monitor_event_def)
next
  case (Some d)
  obtain h u where new: "udev_device_new d (udev s) = (h, u)" by fastforce
  from registry_inv_new [OF inv new] have inv1: "registry_inv {h} (s\<lparr>udev := u\<rparr>)" by simp
  from ev Some have ev': "process_udev_monitor_event (Some d) s = Inr (s', ns)" by simp
  show ?thesis
  using ev' new
  proof (cases rule: process_udev_monitor_event_cases)
    case add
    from inv1 room have "registry_inv {} (snd (add_device_to_records h (s\<lparr>udev := u\<rparr>)))"
      by (intro registry_inv_add) simp_all
    with add show ?thesis by (simp add: add_device_to_records_eq manager_slots_eq_def)
  next
    case (remove action result ident s2)
    from remove(4) inv1 have inv2: "registry_inv {h} s2" by (rule registry_inv_remove)
    from registry_inv_unref [OF inv2] have "registry_inv {} (s2\<lparr>udev := udev_device_unref h (udev s2)\<rparr>)"
      by simp
    moreover from remove_device_from_records_cases [OF remove(4)]
    have "manager_slots_eq s s2 \<and> m_last_used_identifier s2 = m_last_used_identifier s"
      by (auto simp: manager_slots_eq_def)
    ultimately show ?thesis using remove(5)
      by (auto simp: manager_slots_eq_def)
  next
    case other
    from registry_inv_unref [OF inv1] other show ?thesis by simp
  qed
qed

lemma process_control_event_fields [simp]:
  "m_device_records (process_control_event n s) = m_device_records s"
  "m_last_used_identifier (process_control_event n s) = m_last_used_identifier s"
  "udev (process_control_event n s) = udev s"
  "m_callback (process_control_event n s) = m_callback s"
  "m_callback_data (process_control_event n s) = m_callback_data s"
  by (simp_all add: process_control_event_def)

lemma registry_inv_enable [simp]:
  "registry_inv P (s\<lparr>m_enable_monitoring := b\<rparr>) = registry_inv P s"
  by (simp add: registry_inv_def ids_ok_def owner_ok_def)

lemma process_control_event_inv:
  "registry_inv P s \<Longrightarrow> registry_inv P (process_control_event n s)"
  by (simp add: process_control_event_def registry_inv_def ids_ok_def owner_ok_def)

text \<open>A pass changes no slot of the manager but the flag (and the registry).\<close>

lemma monitor_iteration_manager_slots:
  assumes "monitor_iteration w s = Inr (s', ns)"
  shows "manager_slots_eq (s\<lparr>m_enable_monitoring := m_enable_monitoring s'\<rparr>) s' \<and>
    (m_enable_monitoring s' \<longleftrightarrow>
      m_enable_monitoring s \<and> 0 < select_ret w \<and> \<not> (control_ready w \<and> control_read w = 0))"
proof -
  let ?s1 = "if control_ready w then process_control_event (control_read w) s else s"
  have s1: "m_enable_monitoring ?s1 \<longleftrightarrow> m_enable_monitoring s \<and> \<not> (control_ready w \<and> control_read w = 0)"
    "manager_slots_eq (s\<lparr>m_enable_monitoring := m_enable_monitoring ?s1\<rparr>) ?s1"
    by (simp_all add: process_control_event_def manager_slots_eq_def)
  show ?thesis
  proof (cases "0 < select_ret w")
    case True
    show ?thesis
    proof (cases "monitor_ready w")
      case m: True
      with True assms have "process_udev_monitor_event (received w) ?s1 = Inr (s', ns)"
        by (simp add: monitor_iteration_def)
      then have "manager_slots_eq ?s1 s'" by (rule process_udev_monitor_event_slots)
      with s1 True show ?thesis by (simp add: manager_slots_eq_def)
    next
      case False
      with True assms s1 show ?thesis by (auto simp: monitor_iteration_def)
    qed
  next
    case False
    with assms show ?thesis
      by (auto simp: monitor_iteration_def manager_slots_eq_def Let_def split: if_splits)
  qed
qed

lemma monitor_iteration_inv:
  assumes inv: "registry_inv {} s" and room: "sint (m_last_used_identifier s) < INT_MAX"
    and it: "monitor_iteration w s = Inr (s', ns)"
  shows "registry_inv {} s' \<and>
    (m_last_used_identifier s' = m_last_used_identifier s \<or>
     m_last_used_identifier s' = m_last_used_identifier s + 1)"
proof -
  let ?s1 = "if control_ready w then process_control_event (control_read w) s else s"
  have inv1: "registry_inv {} ?s1" and last1: "m_last_used_identifier ?s1 = m_last_used_identifier s"
    using inv by (simp_all add: process_control_event_inv)
  show ?thesis
  proof (cases "0 < select_ret w \<and> monitor_ready w")
    case True
    with it have "process_udev_monitor_event (received w) ?s1 = Inr (s', ns)"
      by (simp add: monitor_iteration_def Let_def)
    from process_udev_monitor_event_inv [OF inv1 _ this] room last1 show ?thesis by simp
  next
    case False
    with it inv inv1 show ?thesis
      by (auto simp: monitor_iteration_def Let_def split: if_splits)
  qed
qed


lemma loop_state_prepend [simp]:
  "loop_state (prepend_notifications ns out) = loop_state out"
  by (cases out) simp_all

lemma loop_notifications_prepend [simp]:
  "loop_notifications (prepend_notifications ns out) = ns @ loop_notifications out"
  by (cases out) simp_all

lemma monitor_loop_disabled [simp]:
  "\<not> m_enable_monitoring s \<Longrightarrow> monitor_loop ws s = Loop_stopped s []"
  by (cases ws) simp_all

lemma registry_inv_ex_manager [simp]: "registry_inv P (ex_manager r cb) = registry_inv P r"
  by (simp add: ex_manager_def registry_inv_def ids_ok_def owner_ok_def)

lemma monitor_loop_inv:
  assumes "registry_inv {} s" and "sint (m_last_used_identifier s) + int (length ws) < INT_MAX"
  shows "pred_option (registry_inv {}) (loop_state (monitor_loop ws s))"
  using assms
proof (induction ws arbitrary: s)
  case Nil
  then show ?case by simp
next
  case (Cons w ws)
  show ?case
  proof (cases "m_enable_monitoring s")
    case True
    show ?thesis
    proof (cases "monitor_iteration w s")
      case (Inl f)
      with True show ?thesis by simp
    next
      case (Inr r)
      then obtain s' ns where it: "monitor_iteration w s = Inr (s', ns)" by (cases r) auto
      from Cons.prems have room: "sint (m_last_used_identifier s) < INT_MAX" by simp
      from monitor_iteration_inv [OF Cons.prems(1) room it]
      have inv': "registry_inv {} s'" and last': "m_last_used_identifier s' = m_last_used_identifier s \<or>
          m_last_used_identifier s' = m_last_used_identifier s + 1" by blast+
      from last' room Cons.prems(2)
      have "sint (m_last_used_identifier s') + int (length ws) < INT_MAX"
        by (auto simp: sint_incr)
      from Cons.IH [OF inv' this] True it show ?thesis by simp
    qed
  next
    case False
    with Cons.prems show ?thesis by simp
  qed
qed

section \<open>Properties of the monitor thread\<close>

text \<open>
  C11. The monitor thread keeps the registry invariant: for any sequence of wake-ups, as
  long as the identifier counter cannot pass \<open>INT_MAX\<close> (one identifier at most per
  wake-up), the state the loop stops or waits in satisfies \<open>registry_inv\<close>: identifiers
  are unique and increasing, and every stored device reference is held exactly once.
\<close>

theorem monitor_for_changes_preserves_registry_inv:
  assumes "registry_inv {} s" and "sint (m_last_used_identifier s) + int (length ws) < INT_MAX"
  shows "pred_option (registry_inv {}) (loop_state (monitor_for_changes monitor_fd ws s))"
  using monitor_loop_inv [OF assms] assms(1)
  by (simp add: monitor_for_changes_def)

theorem monitor_for_changes_preserves_registry_inv_witness:
  "pred_option (registry_inv {})
     (loop_state (monitor_for_changes 5
        [ex_wakeup (Some (ex_usb_device ex_node_short)), ex_wakeup (Some (ex_remove_device ex_node_other)),
         ex_eof_wakeup]
        (ex_manager (ex_registry [ex_node_short, ex_node_other]) (Some 100))))"
proof (rule monitor_for_changes_preserves_registry_inv)
  show "registry_inv {} (ex_manager (ex_registry [ex_node_short, ex_node_other]) (Some 100))"
    by (simp add: registry_inv_ex_registry2)
  show "sint (m_last_used_identifier (ex_manager (ex_registry [ex_node_short, ex_node_other]) (Some 100))) +
      int (length [ex_wakeup (Some (ex_usb_device ex_node_short)), ex_wakeup (Some (ex_remove_device ex_node_other)),
         ex_eof_wakeup]) < INT_MAX"
    by (simp add: ex_manager_def ex_registry_def enumerate_add_device_def registry_initial_def
        udev_device_new_def add_device_to_records_eq Let_def INT_MAX_def)
qed

text \<open>
  C12. An "add" event stores the received device under the next identifier, and then
  notifies the registered callback (if any) with that identifier and \<open>connected = 1\<close>.
\<close>

theorem process_udev_monitor_event_add:
  assumes inv: "registry_inv {} s" and room: "sint (m_last_used_identifier s) < INT_MAX"
    and act: "dev_action d = Some action" "c_strncmp_eq action UDEV_ADD_EVENT (length UDEV_ADD_EVENT)"
  shows "\<exists>s'. process_udev_monitor_event (Some d) s =
      Inr (s', dispatch_callback True (m_last_used_identifier s + 1) 1 s) \<and>
    registry_abs (m_device_records s') =
      (registry_abs (m_device_records s))(m_last_used_identifier s + 1 \<mapsto> (udev_next (udev s), dev_devnode d)) \<and>
    registry_inv {} s'"
proof -
  obtain h u where new: "udev_device_new d (udev s) = (h, u)" by fastforce
  note nf = udev_device_new_fields [OF new]
  let ?s1 = "s\<lparr>udev := u\<rparr>"
  let ?s' = "snd (add_device_to_records h ?s1)"
  have ev: "process_udev_monitor_event (Some d) s =
      Inr (?s', dispatch_callback True (m_last_used_identifier s + 1) 1 s)"
    using new act by (simp add: process_udev_monitor_event_def udev_device_get_action_def nf
        add_device_to_records_eq)
  from registry_inv_new [OF inv new] have inv1: "registry_inv {h} ?s1" by simp
  then have ids1: "ids_ok ?s1" by (simp add: registry_inv_def)
  have "add_device_to_records h ?s1 = ((True, m_last_used_identifier s + 1), ?s')"
    by (simp add: add_device_to_records_eq)
  from add_device_to_records_refines [OF ids1 _ this] room
  have "registry_abs (m_device_records ?s') =
      (registry_abs (m_device_records s))(m_last_used_identifier s + 1 \<mapsto> (h, udev_device_get_devnode u h))"
    by simp
  moreover have "udev_device_get_devnode u h = dev_devnode d"
    by (simp add: udev_device_get_devnode_def nf)
  moreover from inv1 room have "registry_inv {} ?s'" by (intro registry_inv_add) simp_all
  ultimately show ?thesis using ev nf by auto
qed

theorem process_udev_monitor_event_add_witness:
  "process_udev_monitor_event (Some (ex_usb_device ex_node_short)) (ex_manager registry_initial (Some 100)) =
     Inr (snd (add_device_to_records 1 ((ex_manager registry_initial (Some 100))\<lparr>udev :=
        snd (udev_device_new (ex_usb_device ex_node_short) udev_heap_empty)\<rparr>)), [Notify 100 1 1 7])"
proof -
  have inv: "registry_inv {} (ex_manager registry_initial (Some 100))"
    by (simp add: registry_inv_initial)
  have room: "sint (m_last_used_identifier (ex_manager registry_initial (Some 100))) < INT_MAX"
    by (simp add: ex_manager_def registry_initial_def INT_MAX_def)
  have act: "dev_action (ex_usb_device ex_node_short) = Some ''add''"
    "c_strncmp_eq ''add'' UDEV_ADD_EVENT (length UDEV_ADD_EVENT)"
    by (simp_all add: ex_usb_device_def UDEV_ADD_EVENT_def c_strncmp_eq_def)
  from process_udev_monitor_event_add [OF inv room act] show ?thesis
    by (auto simp: ex_manager_def registry_initial_def dispatch_callback_def udev_device_new_def
        udev_heap_empty_def process_udev_monitor_event_def udev_device_get_action_def
        ex_usb_device_def UDEV_ADD_EVENT_def c_strncmp_eq_def add_device_to_records_eq)
qed

text \<open>
  C13. A "remove" event whose node path is compared in full (no stored path strictly
  extends it) deletes the first record with that path, notifies the callback with its
  identifier and \<open>connected = 0\<close>, and releases the reference to the received object, so
  that no reference leaks.
\<close>

theorem process_udev_monitor_event_remove:
  assumes inv: "registry_inv {} s"
    and act: "dev_action d = Some action" "\<not> c_strncmp_eq action UDEV_ADD_EVENT (length UDEV_ADD_EVENT)"
      "c_strncmp_eq action UDEV_REMOVE_EVENT (length UDEV_REMOVE_EVENT)"
    and dn: "dev_devnode d = Some dn" "c_string_ok dn"
    and no_ext: "\<forall>r\<in>set (m_device_records s). \<exists>n. m_devnode r = Some n \<and> (prefix dn n \<longrightarrow> n = dn)"
    and first: "List.find (\<lambda>r. m_devnode r = Some dn) (m_device_records s) = Some r"
  shows "\<exists>s'. process_udev_monitor_event (Some d) s =
      Inr (s', dispatch_callback True (m_identifier r) 0 s) \<and>
    registry_abs (m_device_records s') = (registry_abs (m_device_records s))(m_identifier r := None) \<and>
    registry_inv {} s' \<and> udev_refs (udev s') (udev_next (udev s)) = 0"
proof -
  obtain h u where new: "udev_device_new d (udev s) = (h, u)" by fastforce
  note nf = udev_device_new_fields [OF new]
  let ?s1 = "s\<lparr>udev := u\<rparr>"
  from registry_inv_new [OF inv new] have inv1: "registry_inv {h} ?s1" by simp
  have dn1: "udev_device_get_devnode (udev ?s1) h = Some dn"
    by (simp add: udev_device_get_devnode_def nf dn)
  from remove_device_from_records_exact [OF inv1 dn1 dn(2)] no_ext first
  obtain s2 where rm: "remove_device_from_records h ?s1 = Inr ((True, m_identifier r), s2)"
    and abs2: "registry_abs (m_device_records s2) = (registry_abs (m_device_records s))(m_identifier r := None)"
    and inv2: "registry_inv {h} s2"
    by auto
  let ?s3 = "s2\<lparr>udev := udev_device_unref h (udev s2)\<rparr>"
  have slots: "m_callback s2 = m_callback s" "m_callback_data s2 = m_callback_data s"
    using remove_device_from_records_cases [OF rm] by auto
  have ev: "process_udev_monitor_event (Some d) s = Inr (?s3, dispatch_callback True (m_identifier r) 0 s2)"
    using new act rm by (simp add: process_udev_monitor_event_def udev_device_get_action_def nf)
  have cb: "dispatch_callback True (m_identifier r) 0 s2 = dispatch_callback True (m_identifier r) 0 s"
    using slots by (rule dispatch_callback_slot)
  from registry_inv_unref [OF inv2] have inv3: "registry_inv {} ?s3" by simp
  from inv2 have "udev_refs (udev s2) h = 1" by (simp add: registry_inv_def owner_ok_def)
  then have "udev_refs (udev ?s3) h = 0" by (simp add: udev_device_unref_last)
  with ev cb abs2 inv3 nf show ?thesis by auto
qed

theorem process_udev_monitor_event_remove_witness:
  "\<exists>s'. process_udev_monitor_event (Some (ex_remove_device ex_node_short))
          (ex_manager (ex_registry [ex_node_short, ex_node_other]) (Some 100)) =
        Inr (s', [Notify 100 1 0 7]) \<and>
      registry_abs (m_device_records s') = [2 \<mapsto> (2, Some ex_node_other)] \<and> registry_inv {} s'"
proof -
  let ?s = "ex_manager (ex_registry [ex_node_short, ex_node_other]) (Some 100)"
  let ?r = "\<lparr>m_identifier = 1, m_device = 1, m_devnode = Some ex_node_short\<rparr>"
  have recs: "m_device_records ?s = [?r, \<lparr>m_identifier = 2, m_device = 2, m_devnode = Some ex_node_other\<rparr>]"
    by (simp add: ex_manager_def ex_registry2_records)
  have inv: "registry_inv {} ?s" by (simp add: registry_inv_ex_registry2)
  have act: "dev_action (ex_remove_device ex_node_short) = Some ''remove''"
    "\<not> c_strncmp_eq ''remove'' UDEV_ADD_EVENT (length UDEV_ADD_EVENT)"
    "c_strncmp_eq ''remove'' UDEV_REMOVE_EVENT (length UDEV_REMOVE_EVENT)"
    by (simp_all add: ex_remove_device_def UDEV_ADD_EVENT_def UDEV_REMOVE_EVENT_def c_strncmp_eq_def NUL_def)
  have dn: "dev_devnode (ex_remove_device ex_node_short) = Some ex_node_short" "c_string_ok ex_node_short"
    by (simp_all add: ex_remove_device_def ex_usb_device_def c_string_ok_def ex_node_short_def NUL_def)
  have no_ext: "\<forall>r\<in>set (m_device_records ?s). \<exists>n. m_devnode r = Some n \<and> (prefix ex_node_short n \<longrightarrow> n = ex_node_short)"
    unfolding recs by (simp add: ex_node_short_def ex_node_other_def)
  have first: "List.find (\<lambda>r. m_devnode r = Some ex_node_short) (m_device_records ?s) = Some ?r"
    by (simp add: recs)
  from process_udev_monitor_event_remove [OF inv act dn no_ext first] recs show ?thesis
    by (auto simp: ex_manager_def dispatch_callback_def registry_abs_def ex_node_short_def
        ex_node_other_def fun_eq_iff)
qed

text \<open>
  C16. An event whose action is neither "add" nor "remove" is ignored (lines 525--528):
  the registry and the counter are unchanged, no callback fires, and the reference to
  the received object is released, so the registry invariant holds with no pending
  reference.
\<close>

theorem process_udev_monitor_event_other_action:
  assumes inv: "registry_inv {} s"
    and act: "dev_action d = Some action" "\<not> c_strncmp_eq action UDEV_ADD_EVENT (length UDEV_ADD_EVENT)"
      "\<not> c_strncmp_eq action UDEV_REMOVE_EVENT (length UDEV_REMOVE_EVENT)"
  shows "\<exists>s'. process_udev_monitor_event (Some d) s = Inr (s', []) \<and>
    m_device_records s' = m_device_records s \<and>
    m_last_used_identifier s' = m_last_used_identifier s \<and> registry_inv {} s' \<and>
    udev_refs (udev s') (udev_next (udev s)) = 0"
proof -
  obtain h u where new: "udev_device_new d (udev s) = (h, u)" by fastforce
  note nf = udev_device_new_fields [OF new]
  from registry_inv_new [OF inv new] have inv1: "registry_inv {h} (s\<lparr>udev := u\<rparr>)" by simp
  from registry_inv_unref [OF inv1] have inv2: "registry_inv {} (s\<lparr>udev := udev_device_unref h u\<rparr>)"
    by simp
  have ev: "process_udev_monitor_event (Some d) s = Inr (s\<lparr>udev := udev_device_unref h u\<rparr>, [])"
    using new act by (simp add: process_udev_monitor_event_def udev_device_get_action_def nf)
  have "udev_refs (udev_device_unref h u) h = 0"
    by (simp add: udev_device_unref_last nf)
  with ev inv2 nf show ?thesis by auto
qed

theorem process_udev_monitor_event_other_action_witness:
  "\<exists>s'. process_udev_monitor_event (Some ((ex_usb_device ex_node_short)\<lparr>dev_action := Some ''change''\<rparr>))
          (ex_manager (ex_registry [ex_node_short, ex_node_other]) (Some 100)) = Inr (s', []) \<and>
     m_device_records s' = m_device_records (ex_registry [ex_node_short, ex_node_other])"
proof -
  let ?s = "ex_manager (ex_registry [ex_node_short, ex_node_other]) (Some 100)"
  let ?d = "(ex_usb_device ex_node_short)\<lparr>dev_action := Some ''change''\<rparr>"
  have inv: "registry_inv {} ?s" by (simp add: registry_inv_ex_registry2)
  have act: "dev_action ?d = Some ''change''"
    "\<not> c_strncmp_eq ''change'' UDEV_ADD_EVENT (length UDEV_ADD_EVENT)"
    "\<not> c_strncmp_eq ''change'' UDEV_REMOVE_EVENT (length UDEV_REMOVE_EVENT)"
    by (simp_all add: UDEV_ADD_EVENT_def UDEV_REMOVE_EVENT_def c_strncmp_eq_def NUL_def)
  from process_udev_monitor_event_other_action [OF inv act] show ?thesis
    by (auto simp: ex_manager_def)
qed

text \<open>
  C15. Shutdown is observed within one wake-up: once \<open>select\<close> reports the control pipe
  and \<open>read\<close> returns end of file, the pass clears \<open>m_enable_monitoring\<close> and the loop
  ends right after it, whatever further wake-ups the environment would deliver.
\<close>

theorem monitor_loop_stops_on_eof:
  assumes "m_enable_monitoring s" and "0 < select_ret w" and "control_ready w"
    and "control_read w = 0" and it: "monitor_iteration w s = Inr (s', ns)"
  shows "monitor_loop (w # ws) s = Loop_stopped s' ns"
proof -
  from monitor_iteration_manager_slots [OF it] assms(3,4) have "\<not> m_enable_monitoring s'" by simp
  with assms(1) it show ?thesis by simp
qed

theorem monitor_loop_stops_on_eof_witness:
  "monitor_loop [ex_eof_wakeup, ex_wakeup (Some (ex_usb_device ex_node_short))]
     (ex_manager registry_initial (Some 100)) =
   Loop_stopped ((ex_manager registry_initial (Some 100))\<lparr>m_enable_monitoring := False\<rparr>) []"
proof (rule monitor_loop_stops_on_eof)
  show "monitor_iteration ex_eof_wakeup (ex_manager registry_initial (Some 100)) =
      Inr ((ex_manager registry_initial (Some 100))\<lparr>m_enable_monitoring := False\<rparr>, [])"
    by (simp add: monitor_iteration_def ex_eof_wakeup_def process_control_event_def)
qed (simp_all add: ex_manager_def ex_eof_wakeup_def)

text \<open>
  When the control pipe and the udev monitor are ready in the same wake-up, the
  code serves the control pipe first and then still processes the udev event, on the
  state with monitoring already disabled: a device change observed together with the
  shutdown request is applied and notified.
\<close>

theorem monitor_iteration_control_then_event:
  assumes "0 < select_ret w" and "control_ready w" and "monitor_ready w" and "control_read w = 0"
  shows "monitor_iteration w s =
    process_udev_monitor_event (received w) (s\<lparr>m_enable_monitoring := False\<rparr>)"
  using assms by (simp add: monitor_iteration_def process_control_event_def)

theorem monitor_iteration_control_then_event_witness:
  "\<exists>s'. monitor_iteration (ex_eof_wakeup\<lparr>monitor_ready := True, received := Some (ex_usb_device ex_node_short)\<rparr>)
          (ex_manager registry_initial (Some 100)) = Inr (s', [Notify 100 1 1 7]) \<and>
     \<not> m_enable_monitoring s' \<and> registry_abs (m_device_records s') 1 = Some (1, Some ex_node_short)"
proof -
  let ?w = "ex_eof_wakeup\<lparr>monitor_ready := True, received := Some (ex_usb_device ex_node_short)\<rparr>"
  let ?s1 = "(ex_manager registry_initial (Some 100))\<lparr>m_enable_monitoring := False\<rparr>"
  have it: "monitor_iteration ?w (ex_manager registry_initial (Some 100)) =
      process_udev_monitor_event (Some (ex_usb_device ex_node_short)) ?s1"
    using monitor_iteration_control_then_event [of ?w] by (simp add: ex_eof_wakeup_def)
  have inv: "registry_inv {} ?s1" by (simp add: registry_inv_initial)
  have room: "sint (m_last_used_identifier ?s1) < INT_MAX"
    by (simp add: ex_manager_def registry_initial_def INT_MAX_def)
  have act: "dev_action (ex_usb_device ex_node_short) = Some ''add''"
    "c_strncmp_eq ''add'' UDEV_ADD_EVENT (length UDEV_ADD_EVENT)"
    by (simp_all add: ex_usb_device_def UDEV_ADD_EVENT_def c_strncmp_eq_def)
  obtain s' where ev: "process_udev_monitor_event (Some (ex_usb_device ex_node_short)) ?s1 =
      Inr (s', dispatch_callback True (m_last_used_identifier ?s1 + 1) 1 ?s1)"
    and abs': "registry_abs (m_device_records s') =
      (registry_abs (m_device_records ?s1))(m_last_used_identifier ?s1 + 1 \<mapsto> (udev_next (udev ?s1),
         dev_devnode (ex_usb_device ex_node_short)))"
    using process_udev_monitor_event_add [OF inv room act] by blast
  have "manager_slots_eq ?s1 s'" using ev by (rule process_udev_monitor_event_slots)
  then have "\<not> m_enable_monitoring s'" by (simp add: manager_slots_eq_def)
  with it ev abs' show ?thesis
    by (simp add: ex_manager_def registry_initial_def dispatch_callback_def udev_heap_empty_def
        ex_usb_device_def registry_abs_def)
qed

end
