(* ===== verification/Property.thy ===== *)
theory Property
  imports Registry
begin

text \<open>
  The property resolver, \<open>device_manager::get_property\<close> (\<open>usbctrl.cpp\<close> lines
  227--258), reached through \<open>rusbCtrl_getProperty\<close>: a search of the registry for the
  identifier, then \<open>udev_device_get_sysattr_value\<close> on the record's device object, and a
  copy of the value into a buffer the caller frees. The copy is modelled byte for byte:
  \<open>malloc(strlen(value))\<close> followed by \<open>strncpy(buf, value, strlen(value))\<close> leaves a
  buffer with the characters and no terminator (spec section 9).
\<close>

text \<open>The search loop of lines 230--239: the device of the first record with the identifier.\<close>

fun find_record_device :: "c_int \<Rightarrow> device_record list \<Rightarrow> handle option" where
  "find_record_device identifier [] = None"
| "find_record_device identifier (r # rs) =
     (if identifier = m_identifier r then Some (m_device r)
      else find_record_device identifier rs)"

text \<open>
  Lines 242--252: a NULL attribute value gives NULL; otherwise the value is copied into a
  buffer of \<open>strlen(value)\<close> bytes.
\<close>

definition copy_property :: "cstring option \<Rightarrow> c_buffer option" where
  "copy_property found =
     (case found of
        None \<Rightarrow> None
      | Some value \<Rightarrow> Some \<lparr>buf_size = length value, buf_data = c_strncpy value (length value)\<rparr>)"

definition get_property :: "c_int \<Rightarrow> cstring \<Rightarrow> 'a registry_scheme \<Rightarrow> c_buffer option" where
  "get_property identifier key s =
     (case find_record_device identifier (m_device_records s) of
        None \<Rightarrow> None
      | Some device \<Rightarrow> copy_property (udev_device_get_sysattr_value (udev s) device key))"

lemma find_record_device_abs:
  "find_record_device identifier rs = map_option fst (registry_abs rs identifier)"
  by (induction rs) (auto simp: registry_abs_def)

lemma get_property_found:
  assumes "find_record_device identifier (m_device_records s) = Some h"
    and "udev_device_get_sysattr_value (udev s) h key = Some v"
  shows "get_property identifier key s = Some \<lparr>buf_size = length v, buf_data = v\<rparr>"
  using assms by (simp add: get_property_def copy_property_def c_strncpy_strlen)

section \<open>Properties of the property resolver\<close>

text \<open>
  An identifier that is not in the registry yields NULL and no buffer, whatever the key.
\<close>

theorem get_property_unknown_identifier:
  assumes "registry_abs (m_device_records s) identifier = None"
  shows "get_property identifier key s = None"
  using assms by (simp add: get_property_def find_record_device_abs)

theorem get_property_unknown_identifier_witness:
  "get_property 7 ''idVendor'' (ex_registry [ex_node_short, ex_node_other]) = None"
  by (rule get_property_unknown_identifier) (simp add: ex_registry2_records registry_abs_def)

text \<open>
  C9. For an identifier in the registry, \<open>get_property\<close> answers from the live device
  object that the identifier is bound to in the abstract registry: NULL when the object
  has no such attribute, otherwise a buffer holding exactly the attribute's characters.
\<close>

theorem get_property_refines:
  assumes "registry_inv P s"
    and "registry_abs (m_device_records s) identifier = Some (h, n)"
  shows "\<exists>d. udev_objects (udev s) h = Some d \<and>
    get_property identifier key s =
      map_option (\<lambda>v. \<lparr>buf_size = length v, buf_data = v\<rparr>) (map_of (dev_sysattrs d) key)"
proof -
  from assms(2) have f: "find_record_device identifier (m_device_records s) = Some h"
    by (simp add: find_record_device_abs)
  from registry_abs_SomeD [OF assms(2)] obtain r
    where "r \<in> set (m_device_records s)" and "m_device r = h"
    by blast
  with assms(1) obtain d where d: "udev_objects (udev s) h = Some d"
    by (auto simp: registry_inv_def owner_ok_def)
  with f show ?thesis
    by (auto simp: get_property_def copy_property_def udev_device_get_sysattr_value_def
        c_strncpy_strlen split: option.splits)
qed

theorem get_property_refines_witness:
  "get_property 2 ''idVendor'' (ex_registry [ex_node_short, ex_node_other]) =
     Some \<lparr>buf_size = 6, buf_data = ''0x046d''\<rparr>"
proof -
  have "registry_abs (m_device_records (ex_registry [ex_node_short, ex_node_other])) 2 =
      Some (2, Some ex_node_other)"
    by (simp add: ex_registry2_records registry_abs_def)
  from get_property_refines [OF registry_inv_ex_registry2 this, of "''idVendor''"]
  show ?thesis by (simp add: ex_registry2_objects ex_usb_device_def)
qed

text \<open>
  C10. The returned buffer is one byte short (spec section 9): it is allocated with
  \<open>strlen(value)\<close> bytes, holds the value's characters and no terminator, so reading it
  as a C string, as the caller does, runs past the allocation.
\<close>

theorem get_property_unterminated:
  assumes "get_property identifier key s = Some buf"
  shows "\<exists>h v. find_record_device identifier (m_device_records s) = Some h \<and>
    udev_device_get_sysattr_value (udev s) h key = Some v \<and>
    buf_data buf = v \<and> buf_size buf = length v \<and>
    (c_string_ok v \<longrightarrow> c_buffer_string buf = None)"
  using assms
  by (auto simp: get_property_def copy_property_def c_strncpy_strlen c_buffer_string_full
      split: option.splits)

theorem get_property_unterminated_witness:
  "buf_size (the (get_property 2 ''idVendor'' (ex_registry [ex_node_short, ex_node_other]))) = 6 \<and>
   c_buffer_string (the (get_property 2 ''idVendor'' (ex_registry [ex_node_short, ex_node_other]))) = None"
proof -
  let ?s = "ex_registry [ex_node_short, ex_node_other]"
  have g: "get_property 2 ''idVendor'' ?s = Some \<lparr>buf_size = 6, buf_data = ''0x046d''\<rparr>"
    by (simp add: get_property_def copy_property_def ex_registry2_records ex_registry2_objects
        udev_device_get_sysattr_value_def ex_usb_device_def c_strncpy_def)
  from get_property_unterminated [OF g] g show ?thesis
    by (auto simp: ex_registry2_objects ex_registry2_records udev_device_get_sysattr_value_def
        ex_usb_device_def c_string_ok_def NUL_def)
qed

end
