(* ===== verification/Facade.thy ===== *)
theory Facade
  imports Monitor Property
begin

text \<open>
  The public operations of \<open>device_manager\<close> (\<open>usbctrl.cpp\<close>): \<open>init\<close> (lines
  205--211) with \<open>enumerate_connected_devices\<close> (lines 377--422), \<open>term\<close> (lines
  213--224) and \<open>register_callback\<close> (lines 260--277) with
  \<open>get_connected_devices_list\<close>. The outcome of the libudev enumerator calls
  (\<open>udev_enumerate_new\<close>, \<open>udev_enumerate_add_match_property\<close>,
  \<open>udev_enumerate_scan_devices\<close>) and, for each listed syspath, of
  \<open>udev_device_new_from_syspath\<close> is the environment's choice (\<open>enumeration\<close>).
  The result codes come from \<open>usbctrl.h\<close>, which is not in the repository: only the
  two values the code uses are modelled.
\<close>

datatype rusbCtrl_result = RUSBCTRL_SUCCESS | RUSBCTRL_FAILURE

datatype enumeration =
    Enumerator_new_failed
  | Match_property_failed
  | Scan_devices_failed
  | Scanned "udev_device option list"

definition enumerate_connected_devices ::
  "enumeration \<Rightarrow> 'a device_manager_scheme \<Rightarrow> rusbCtrl_result \<times> 'a device_manager_scheme" where
  "enumerate_connected_devices e s =
     (let s1 = reset_device_records s
      in case e of
           Enumerator_new_failed \<Rightarrow> (RUSBCTRL_FAILURE, s1)
         | Match_property_failed \<Rightarrow> (RUSBCTRL_FAILURE, s1)
         | Scan_devices_failed \<Rightarrow> (RUSBCTRL_FAILURE, s1)
         | Scanned found \<Rightarrow> (RUSBCTRL_SUCCESS, fold enumerate_add_device found s1))"

text \<open>\<open>init\<close> discards the enumeration's result and reports success.\<close>

definition init :: "enumeration \<Rightarrow> 'a device_manager_scheme \<Rightarrow> rusbCtrl_result \<times> 'a device_manager_scheme" where
  "init e s = (let (result, s1) = enumerate_connected_devices e s in (RUSBCTRL_SUCCESS, s1))"

text \<open>\<open>term\<close> (named \<open>term_manager\<close> here, \<open>term\<close> being an Isabelle keyword).\<close>

definition term_manager :: "'a device_manager_scheme \<Rightarrow> rusbCtrl_result \<times> 'a device_manager_scheme" where
  "term_manager s =
     (RUSBCTRL_SUCCESS, (reset_device_records s)\<lparr>m_callback := None, m_callback_data := 0\<rparr>)"

text \<open>
  \<open>register_callback\<close> installs the callback and, when both out-pointers are non-NULL
  (\<open>want_list\<close>), returns what \<open>get_connected_devices_list\<close> writes through them, all under
  one acquisition of the lock.
\<close>

definition register_callback ::
  "callback option \<Rightarrow> payload \<Rightarrow> bool \<Rightarrow> 'a device_manager_scheme \<Rightarrow>
   (rusbCtrl_result \<times> (c_int \<times> c_int list option) option) \<times> 'a device_manager_scheme" where
  "register_callback callback callback_data want_list s =
     (let s1 = s\<lparr>m_callback := callback, m_callback_data := callback_data\<rparr>
      in ((RUSBCTRL_SUCCESS, if want_list then Some (get_connected_devices_list s1) else None), s1))"

section \<open>Lemmas on the facade\<close>

lemma enumerate_add_device_Some:
  "enumerate_add_device (Some d) s =
     s\<lparr>udev := snd (udev_device_new d (udev s)),
       m_last_used_identifier := m_last_used_identifier s + 1,
       m_device_records := m_device_records s @
         [\<lparr>m_identifier = m_last_used_identifier s + 1, m_device = udev_next (udev s),
           m_devnode = dev_devnode d\<rparr>]\<rparr>"
  by (simp add: enumerate_add_device_def udev_device_new_def add_device_to_records_eq
      udev_device_get_devnode_def Let_def)

lemma upt_shift_ids:
  "map (\<lambda>i. (n :: c_int) + of_nat i) [1..<Suc (Suc k)] =
   (n + 1) # map (\<lambda>i. (n + 1) + of_nat i) [1..<Suc k]"
proof -
  have "[1..<Suc (Suc k)] = 1 # map Suc [1..<Suc k]"
    by (simp add: upt_conv_Cons map_Suc_upt del: upt_Suc)
  then show ?thesis by (simp add: algebra_simps)
qed

lemma fold_enumerate_add_device:
  "map m_devnode (m_device_records (fold enumerate_add_device found s)) =
     map m_devnode (m_device_records s) @ map dev_devnode (List.map_filter (\<lambda>d. d) found) \<and>
   map m_identifier (m_device_records (fold enumerate_add_device found s)) =
     map m_identifier (m_device_records s) @
     map (\<lambda>i. m_last_used_identifier s + of_nat i) [1..<Suc (length (List.map_filter (\<lambda>d. d) found))] \<and>
   m_last_used_identifier (fold enumerate_add_device found s) =
     m_last_used_identifier s + of_nat (length (List.map_filter (\<lambda>d. d) found))"
proof (induction found arbitrary: s)
  case Nil
  then show ?case by simp
next
  case (Cons d found)
  show ?case
  proof (cases d)
    case None
    with Cons.IH [of s] show ?thesis
      by (simp add: enumerate_add_device_def map_filter_simps)
  next
    case (Some x)
    let ?s1 = "enumerate_add_device (Some x) s"
    have r1: "map m_devnode (m_device_records ?s1) = map m_devnode (m_device_records s) @ [dev_devnode x]"
      "map m_identifier (m_device_records ?s1) =
         map m_identifier (m_device_records s) @ [m_last_used_identifier s + 1]"
      "m_last_used_identifier ?s1 = m_last_used_identifier s + 1"
      by (simp_all add: enumerate_add_device_Some)
    have "map (\<lambda>i. m_last_used_identifier s + of_nat i) [1..<Suc (Suc (length (List.map_filter (\<lambda>d. d) found)))] =
        (m_last_used_identifier s + 1) #
        map (\<lambda>i. (m_last_used_identifier s + 1) + of_nat i) [1..<Suc (length (List.map_filter (\<lambda>d. d) found))]"
      by (rule upt_shift_ids)
    with Cons.IH [of ?s1] r1 Some show ?thesis
      by (simp del: upt_Suc add: algebra_simps)
  qed
qed

lemma registry_inv_fold_enumerate:
  assumes "registry_inv {} s" and "sint (m_last_used_identifier s) + int (length found) < INT_MAX"
  shows "registry_inv {} (fold enumerate_add_device found s)"
  using assms
proof (induction found arbitrary: s)
  case (Cons d found)
  from Cons.prems have room: "sint (m_last_used_identifier s) < INT_MAX" by simp
  have inv1: "registry_inv {} (enumerate_add_device d s)"
    using Cons.prems(1) room by (rule registry_inv_enumerate_add)
  have "m_last_used_identifier (enumerate_add_device d s) = m_last_used_identifier s \<or>
        m_last_used_identifier (enumerate_add_device d s) = m_last_used_identifier s + 1"
    by (cases d) (simp add: enumerate_add_device_def, simp add: enumerate_add_device_Some)
  with room Cons.prems(2)
  have "sint (m_last_used_identifier (enumerate_add_device d s)) + int (length found) < INT_MAX"
    by (auto simp: sint_incr)
  from Cons.IH [OF inv1 this] show ?case by simp
qed simp

lemma registry_inv_manager_update [simp]:
  "registry_inv P (s\<lparr>m_callback := c, m_callback_data := x\<rparr>) = registry_inv P s"
  by (simp add: registry_inv_def ids_ok_def owner_ok_def)

lemma monitor_iteration_slots:
  assumes "monitor_iteration w s = Inr (s', ns)"
  shows "m_callback s' = m_callback s \<and> m_callback_data s' = m_callback_data s"
  using monitor_iteration_manager_slots [OF assms] by (simp add: manager_slots_eq_def)

lemma process_udev_monitor_event_no_callback:
  assumes "m_callback s = None" and "process_udev_monitor_event found s = Inr (s', ns)"
  shows "ns = []"
proof (cases found)
  case None
  with assms show ?thesis by (simp add: process_udev_monitor_event_def)
next
  case (Some d)
  obtain h u where new: "udev_device_new d (udev s) = (h, u)" by fastforce
  from assms(2) Some have "process_udev_monitor_event (Some d) s = Inr (s', ns)" by simp
  then show ?thesis using new
    by (cases rule: process_udev_monitor_event_cases) (simp_all add: dispatch_callback_def assms(1))
qed

lemma monitor_iteration_no_callback:
  assumes "m_callback s = None" and "monitor_iteration w s = Inr (s', ns)"
  shows "ns = []"
proof (cases "0 < select_ret w \<and> monitor_ready w")
  case True
  let ?s1 = "if control_ready w then process_control_event (control_read w) s else s"
  from True assms(2) have "process_udev_monitor_event (received w) ?s1 = Inr (s', ns)"
    by (simp add: monitor_iteration_def Let_def)
  moreover have "m_callback ?s1 = None" using assms(1) by simp
  ultimately show ?thesis using process_udev_monitor_event_no_callback by blast
next
  case False
  with assms(2) show ?thesis by (auto simp: monitor_iteration_def Let_def split: if_splits)
qed

lemma monitor_loop_no_callback:
  "m_callback s = None \<Longrightarrow> loop_notifications (monitor_loop ws s) = []"
proof (induction ws arbitrary: s)
  case (Cons w ws)
  show ?case
  proof (cases "m_enable_monitoring s")
    case True
    show ?thesis
    proof (cases "monitor_iteration w s")
      case (Inr r)
      then obtain s' ns where it: "monitor_iteration w s = Inr (s', ns)" by (cases r) auto
      from monitor_iteration_no_callback [OF Cons.prems it] have "ns = []" .
      moreover from monitor_iteration_slots [OF it] Cons.prems have "m_callback s' = None" by simp
      ultimately show ?thesis using True it Cons.IH by simp
    qed (simp add: True)
  qed simp
qed simp

lemma card_dom_registry_abs:
  "distinct (map m_identifier rs) \<Longrightarrow>
   dom (registry_abs rs) = set (map m_identifier rs) \<and> card (dom (registry_abs rs)) = length rs"
  using distinct_card [of "map m_identifier rs"]
  by (simp add: registry_abs_def dom_map_of_conv_image_fst image_image)

section \<open>Properties of the facade\<close>

text \<open>
  C17. \<open>init\<close> re-enumerates: the registry is replaced by one record per device object
  the enumeration yields, in enumeration order, with consecutive identifiers continuing
  from the counter (identifiers are never reused across re-enumeration), and the
  invariant holds.
\<close>

theorem init_enumerates:
  assumes inv: "registry_inv {} s"
    and room: "sint (m_last_used_identifier s) + int (length found) < INT_MAX"
    and res: "init (Scanned found) s = (result, s')"
  shows "result = RUSBCTRL_SUCCESS \<and> registry_inv {} s' \<and>
    map m_devnode (m_device_records s') = map dev_devnode (List.map_filter (\<lambda>d. d) found) \<and>
    map m_identifier (m_device_records s') =
      map (\<lambda>i. m_last_used_identifier s + of_nat i) [1..<Suc (length (List.map_filter (\<lambda>d. d) found))]"
proof -
  let ?s1 = "reset_device_records s"
  from res have s': "s' = fold enumerate_add_device found ?s1" and r: "result = RUSBCTRL_SUCCESS"
    by (simp_all add: init_def enumerate_connected_devices_def)
  have inv1: "registry_inv {} ?s1" using inv by (rule registry_inv_reset)
  have e1: "m_device_records ?s1 = []" "m_last_used_identifier ?s1 = m_last_used_identifier s"
    by (simp_all add: reset_device_records_def)
  from room e1 have "sint (m_last_used_identifier ?s1) + int (length found) < INT_MAX" by simp
  from registry_inv_fold_enumerate [OF inv1 this] fold_enumerate_add_device [of found ?s1] e1 s' r
  show ?thesis by simp
qed

theorem init_enumerates_witness:
  "map m_identifier (m_device_records (snd (init (Scanned [Some (ex_usb_device ex_node_short), None,
      Some (ex_usb_device ex_node_other)]) (ex_manager registry_initial None)))) = [1, 2]"
proof -
  let ?f = "[Some (ex_usb_device ex_node_short), None, Some (ex_usb_device ex_node_other)]"
  let ?s = "ex_manager registry_initial None"
  have inv: "registry_inv {} ?s" by (simp add: registry_inv_initial)
  have room: "sint (m_last_used_identifier ?s) + int (length ?f) < INT_MAX"
    by (simp add: ex_manager_def registry_initial_def INT_MAX_def)
  have "init (Scanned ?f) ?s = (fst (init (Scanned ?f) ?s), snd (init (Scanned ?f) ?s))" by simp
  from init_enumerates [OF inv room this] show ?thesis
    by (simp add: ex_manager_def registry_initial_def)
qed

text \<open>
  C18. \<open>init\<close> reports success even when the enumeration fails: the registry has then
  been emptied, and the caller cannot tell (spec section 6 gives \<open>init\<close> a result).
\<close>

theorem init_masks_enumeration_failure:
  assumes "fst (enumerate_connected_devices e s) = RUSBCTRL_FAILURE"
  shows "init e s = (RUSBCTRL_SUCCESS, snd (enumerate_connected_devices e s)) \<and>
    m_device_records (snd (init e s)) = []"
proof -
  from assms have "e = Enumerator_new_failed \<or> e = Match_property_failed \<or> e = Scan_devices_failed"
    by (cases e) (simp_all add: enumerate_connected_devices_def)
  then show ?thesis
    by (auto simp: init_def enumerate_connected_devices_def reset_device_records_def)
qed

theorem init_masks_enumeration_failure_witness:
  "init Scan_devices_failed (ex_manager (ex_registry [ex_node_short, ex_node_other]) None) =
     (RUSBCTRL_SUCCESS, snd (enumerate_connected_devices Scan_devices_failed
        (ex_manager (ex_registry [ex_node_short, ex_node_other]) None))) \<and>
   m_device_records (snd (init Scan_devices_failed (ex_manager (ex_registry [ex_node_short, ex_node_other]) None))) = []"
  by (rule init_masks_enumeration_failure) (simp add: enumerate_connected_devices_def)

text \<open>
  C19. After \<open>term\<close> the registry is empty and the callback slot is cleared, and as long
  as no new callback is registered the monitor thread, whatever wake-ups it processes, calls
  no callback.
\<close>

theorem term_silences_monitor:
  assumes "term_manager s = (result, s')"
  shows "result = RUSBCTRL_SUCCESS \<and> m_device_records s' = [] \<and> m_callback s' = None \<and>
    loop_notifications (monitor_loop ws s') = []"
proof -
  from assms have r: "result = RUSBCTRL_SUCCESS" and cb: "m_callback s' = None"
    and recs: "m_device_records s' = []"
    by (auto simp: term_manager_def reset_device_records_def)
  from monitor_loop_no_callback [OF cb] r cb recs show ?thesis by simp
qed

theorem term_silences_monitor_witness:
  "loop_notifications (monitor_loop [ex_wakeup (Some (ex_usb_device ex_node_short))]
     (snd (term_manager (ex_manager (ex_registry [ex_node_short, ex_node_other]) (Some 100))))) = []"
proof -
  let ?s = "ex_manager (ex_registry [ex_node_short, ex_node_other]) (Some 100)"
  have "term_manager ?s = (fst (term_manager ?s), snd (term_manager ?s))" by simp
  from term_silences_monitor [OF this] show ?thesis by blast
qed

text \<open>
  C20. \<open>register_callback\<close> installs the callback and, in the same critical section,
  returns a snapshot of the registry: its size, and the identifiers of the abstract
  registry, each once and in increasing order; the registry itself is unchanged.
\<close>

theorem register_callback_snapshot:
  assumes inv: "registry_inv {} s"
    and res: "register_callback cb data True s = ((result, snapshot), s')"
    and nonempty: "m_device_records s \<noteq> []"
  shows "result = RUSBCTRL_SUCCESS \<and> m_callback s' = cb \<and> m_callback_data s' = data \<and>
    m_device_records s' = m_device_records s \<and>
    (\<exists>n ids. snapshot = Some (n, Some ids) \<and> sint n = int (card (dom (registry_abs (m_device_records s)))) \<and>
       set ids = dom (registry_abs (m_device_records s)) \<and> distinct ids \<and>
       sorted_wrt (\<lambda>a b. sint a < sint b) ids)"
proof -
  from inv have ids: "ids_ok s" by (simp add: registry_inv_def)
  then have d: "distinct (map m_identifier (m_device_records s))" by (rule ids_ok_distinct)
  from ids have "sorted_wrt (\<lambda>a b. sint a < sint b) (map m_identifier (m_device_records s))"
    by (simp add: ids_ok_def sorted_wrt_map)
  moreover have "sint (word_of_nat (length (m_device_records s)) :: c_int) = int (length (m_device_records s))"
    by (rule sint_of_nat_range [OF ids_ok_length_le [OF ids]])
  ultimately show ?thesis using d card_dom_registry_abs [OF d] res nonempty
    by (auto simp: register_callback_def get_connected_devices_list_def Let_def)
qed

theorem register_callback_snapshot_witness:
  "register_callback (Some 100) 7 True (ex_manager (ex_registry [ex_node_short, ex_node_other]) None) =
     ((RUSBCTRL_SUCCESS, Some (2, Some [1, 2])),
      (ex_manager (ex_registry [ex_node_short, ex_node_other]) None)\<lparr>m_callback := Some 100\<rparr>)"
proof -
  let ?s = "ex_manager (ex_registry [ex_node_short, ex_node_other]) None"
  have inv: "registry_inv {} ?s" by (simp add: registry_inv_ex_registry2)
  have ne: "m_device_records ?s \<noteq> []" by (simp add: ex_manager_def ex_registry2_records)
  obtain result snapshot s' where res: "register_callback (Some 100) 7 True ?s = ((result, snapshot), s')"
    by (metis prod.exhaust)
  from register_callback_snapshot [OF inv res ne] have "result = RUSBCTRL_SUCCESS" by blast
  with res show ?thesis
    by (auto simp: register_callback_def get_connected_devices_list_def ex_manager_def
        ex_registry2_records)
qed

end
