(* ===== verification/Concurrency.thy ===== *)
theory Concurrency
  imports Facade
begin

text \<open>
  The two threads of the library and the steps in which they interleave. The monitor
  thread (\<open>monitor_for_changes\<close>, \<open>process_udev_monitor_event\<close>, lines 292--337 and
  480--529) handles one event in stages: the section under \<open>m_mutex\<close> that updates the
  registry, the release of the received device (on a "remove"), the test
  \<open>(result) && (m_callback)\<close> and the call \<open>m_callback(identifier, connected,
  m_callback_data)\<close>, the last two outside the lock and each reading \<open>m_callback\<close> anew. The
  application thread calls \<open>init\<close>, \<open>term\<close> and \<open>register_callback\<close>, each one critical
  section under \<open>m_mutex\<close>, and \<open>get_property\<close>, which takes no lock (its comment says
  "needs lock"): its search of the registry walks the list one iterator step at a time
  (lines 232--239), and its read of the device object it found (lines 240--253) is a step
  of its own. A critical section is one step: the mutex makes the sections of
  the two threads mutually exclusive, so only the unlocked stages interleave with them.
\<close>

text \<open>Where the monitor thread is in the handling of one event.\<close>

datatype mon_pc =
    Mon_idle
  | Mon_release handle bool c_int
  | Mon_check bool c_int int
  | Mon_call c_int int

text \<open>
  Where the application thread is in \<open>get_property\<close>: searching for an identifier with
  the iterator at a record node (or at \<open>end()\<close>, \<open>None\<close>), or about to read the device
  it found. A node of \<open>m_device_records\<close> is named by the device handle its record holds:
  the ownership invariant keeps these distinct and the allocator never hands one out
  again, so a node that \<open>remove_device_from_records\<close> erases and deletes is one whose
  handle is no longer in the list.
\<close>

datatype api_pc = Api_idle | Api_searching c_int cstring "handle option" | Api_reading handle cstring

text \<open>What the application observes: callback calls and the results of its calls.\<close>

datatype observation =
    Called notification
  | Returned rusbCtrl_result
  | Listed "(c_int \<times> c_int list option) option"
  | Property_read "c_buffer option"

record conc_state =
  conc_shared :: device_manager
  conc_mon :: mon_pc
  conc_api :: api_pc
  conc_log :: "observation list"

datatype conc_action =
    Mon_receive "udev_device option"
  | Mon_control int
  | Mon_unref
  | Mon_test
  | Mon_invoke
  | Call_init enumeration
  | Call_term
  | Call_register "callback option" payload bool
  | Call_property_begin c_int cstring
  | Call_property_step
  | Call_property_read

text \<open>
  The monitor's receive and locked section (lines 482--514): the received object, the
  action test, and the registry update under the lock; "add" hands the reference to the
  registry, "remove" keeps it until \<open>udev_device_unref\<close> after the lock (line 519), and any
  other action releases it at once (line 527).
\<close>

definition monitor_event_locked ::
  "udev_device option \<Rightarrow> device_manager \<Rightarrow> fault + device_manager \<times> mon_pc" where
  "monitor_event_locked found s =
     (case found of
        None \<Rightarrow> Inr (s, Mon_idle)
      | Some d \<Rightarrow>
          (let (device, u) = udev_device_new d (udev s);
               s1 = s\<lparr>udev := u\<rparr>
           in case udev_device_get_action (udev s1) device of
                None \<Rightarrow> Inl Null_dereference
              | Some action \<Rightarrow>
                  if c_strncmp_eq action UDEV_ADD_EVENT (length UDEV_ADD_EVENT) then
                    (let ((result, identifier), s2) = add_device_to_records device s1
                     in Inr (s2, Mon_check result identifier 1))
                  else if c_strncmp_eq action UDEV_REMOVE_EVENT (length UDEV_REMOVE_EVENT) then
                    (case remove_device_from_records device s1 of
                       Inl f \<Rightarrow> Inl f
                     | Inr ((result, identifier), s2) \<Rightarrow> Inr (s2, Mon_release device result identifier))
                  else Inr (s1\<lparr>udev := udev_device_unref device (udev s1)\<rparr>, Mon_idle)))"

text \<open>\<open>begin()\<close> and \<open>++\<close> on \<open>m_device_records\<close>, and the record at a node.\<close>

definition first_record :: "device_record list \<Rightarrow> handle option" where
  "first_record rs = (case rs of [] \<Rightarrow> None | r # _ \<Rightarrow> Some (m_device r))"

fun record_after :: "handle \<Rightarrow> device_record list \<Rightarrow> handle option" where
  "record_after h [] = None"
| "record_after h (r # rs) = (if m_device r = h then first_record rs else record_after h rs)"

definition record_at :: "handle \<Rightarrow> device_record list \<Rightarrow> device_record option" where
  "record_at h rs = find (\<lambda>r. m_device r = h) rs"

text \<open>
  One step of one thread; \<open>None\<close> when the thread is not at that step. The monitor takes
  a new event or a control message only while \<open>m_enable_monitoring\<close> is set.
\<close>

fun conc_step :: "conc_action \<Rightarrow> conc_state \<Rightarrow> (fault + conc_state) option" where
  "conc_step (Mon_receive found) s =
     (if conc_mon s = Mon_idle \<and> m_enable_monitoring (conc_shared s) then
        Some (case monitor_event_locked found (conc_shared s) of
                Inl f \<Rightarrow> Inl f
              | Inr (m', pc) \<Rightarrow> Inr (s\<lparr>conc_shared := m', conc_mon := pc\<rparr>))
      else None)"
| "conc_step (Mon_control n) s =
     (if conc_mon s = Mon_idle \<and> m_enable_monitoring (conc_shared s) then
        Some (Inr (s\<lparr>conc_shared := process_control_event n (conc_shared s)\<rparr>))
      else None)"
| "conc_step Mon_unref s =
     (case conc_mon s of
        Mon_release device result identifier \<Rightarrow>
          (let m = conc_shared s
           in Some (Inr (s\<lparr>conc_shared := m\<lparr>udev := udev_device_unref device (udev m)\<rparr>,
                          conc_mon := Mon_check result identifier 0\<rparr>)))
      | _ \<Rightarrow> None)"
| "conc_step Mon_test s =
     (case conc_mon s of
        Mon_check result identifier connected \<Rightarrow>
          Some (Inr (s\<lparr>conc_mon := (if result \<and> m_callback (conc_shared s) \<noteq> None
                                     then Mon_call identifier connected else Mon_idle)\<rparr>))
      | _ \<Rightarrow> None)"
| "conc_step Mon_invoke s =
     (case conc_mon s of
        Mon_call identifier connected \<Rightarrow>
          Some (case m_callback (conc_shared s) of
                  None \<Rightarrow> Inl Null_function_call
                | Some cb \<Rightarrow>
                    Inr (s\<lparr>conc_mon := Mon_idle,
                           conc_log := conc_log s @
                             [Called (Notify cb identifier connected (m_callback_data (conc_shared s)))]\<rparr>))
      | _ \<Rightarrow> None)"
| "conc_step (Call_init e) s =
     (case conc_api s of
        Api_idle \<Rightarrow>
          (let (r, m') = init e (conc_shared s)
           in Some (Inr (s\<lparr>conc_shared := m', conc_log := conc_log s @ [Returned r]\<rparr>)))
      | _ \<Rightarrow> None)"
| "conc_step Call_term s =
     (case conc_api s of
        Api_idle \<Rightarrow>
          (let (r, m') = term_manager (conc_shared s)
           in Some (Inr (s\<lparr>conc_shared := m', conc_log := conc_log s @ [Returned r]\<rparr>)))
      | _ \<Rightarrow> None)"
| "conc_step (Call_register cb d want) s =
     (case conc_api s of
        Api_idle \<Rightarrow>
          (let ((r, l), m') = register_callback cb d want (conc_shared s)
           in Some (Inr (s\<lparr>conc_shared := m', conc_log := conc_log s @ [Listed l]\<rparr>)))
      | _ \<Rightarrow> None)"
| "conc_step (Call_property_begin identifier key) s =
     (case conc_api s of
        Api_idle \<Rightarrow>
          Some (Inr (s\<lparr>conc_api := Api_searching identifier key
                                     (first_record (m_device_records (conc_shared s)))\<rparr>))
      | _ \<Rightarrow> None)"
| "conc_step Call_property_step s =
     (case conc_api s of
        Api_searching identifier key None \<Rightarrow>
          Some (Inr (s\<lparr>conc_api := Api_idle, conc_log := conc_log s @ [Property_read None]\<rparr>))
      | Api_searching identifier key (Some h) \<Rightarrow>
          (case record_at h (m_device_records (conc_shared s)) of
             None \<Rightarrow> Some (Inl Use_after_free)
           | Some r \<Rightarrow>
               if identifier = m_identifier r
               then Some (Inr (s\<lparr>conc_api := Api_reading (m_device r) key\<rparr>))
               else Some (Inr (s\<lparr>conc_api := Api_searching identifier key
                                     (record_after h (m_device_records (conc_shared s)))\<rparr>)))
      | _ \<Rightarrow> None)"
| "conc_step Call_property_read s =
     (case conc_api s of
        Api_reading device key \<Rightarrow>
          (let u = udev (conc_shared s)
           in Some (case udev_objects u device of
                      None \<Rightarrow> Inl Use_after_free
                    | Some _ \<Rightarrow>
                        Inr (s\<lparr>conc_api := Api_idle,
                               conc_log := conc_log s @
                                 [Property_read (copy_property (udev_device_get_sysattr_value u device key))]\<rparr>)))
      | _ \<Rightarrow> None)"

text \<open>The states reachable from \<open>s0\<close> by steps of either thread that do not fault.\<close>

inductive conc_reach :: "conc_state \<Rightarrow> conc_state \<Rightarrow> bool" for s0 where
  reach_start: "conc_reach s0 s0"
| reach_step: "conc_reach s0 s \<Longrightarrow> conc_step a s = Some (Inr s') \<Longrightarrow> conc_reach s0 s'"

text \<open>A schedule, run step by step; \<open>None\<close> when a step is not enabled.\<close>

fun conc_run :: "conc_action list \<Rightarrow> conc_state \<Rightarrow> (fault + conc_state) option" where
  "conc_run [] s = Some (Inr s)"
| "conc_run (a # as) s =
     (case conc_step a s of
        None \<Rightarrow> None
      | Some (Inl f) \<Rightarrow> Some (Inl f)
      | Some (Inr s') \<Rightarrow> conc_run as s')"

text \<open>The device reference the monitor thread holds between its stages.\<close>

fun mon_held :: "mon_pc \<Rightarrow> handle set" where
  "mon_held (Mon_release device result identifier) = {device}"
| "mon_held pc = {}"

definition conc_inv :: "conc_state \<Rightarrow> bool" where
  "conc_inv s \<longleftrightarrow> heap_ok (mon_held (conc_mon s)) (conc_shared s)"

text \<open>The example: one device (identifier 1) connected and a callback registered.\<close>

definition ex_conc_start :: conc_state where
  "ex_conc_start =
     \<lparr>conc_shared = ex_manager (ex_registry [ex_node_short]) (Some 100),
      conc_mon = Mon_idle, conc_api = Api_idle, conc_log = []\<rparr>"

section \<open>Lemmas on the interleavings\<close>

lemma heap_ok_cong:
  "m_device_records s' = m_device_records s \<Longrightarrow> udev s' = udev s \<Longrightarrow> heap_ok P s' = heap_ok P s"
  by (simp add: heap_ok_def owner_ok_def)

lemma heap_ok_enumerate_add:
  assumes "heap_ok P s"
  shows "heap_ok P (enumerate_add_device found s)"
proof (cases found)
  case (Some d)
  obtain h u where new: "udev_device_new d (udev s) = (h, u)" by fastforce
  from heap_ok_new [OF assms new] have "heap_ok (insert h P) (s\<lparr>udev := u\<rparr>)" "h \<notin> P" by auto
  from heap_ok_add [OF this] Some new show ?thesis by (simp add: enumerate_add_device_def)
qed (use assms in \<open>simp add: enumerate_add_device_def\<close>)

lemma heap_ok_fold_enumerate: "heap_ok P s \<Longrightarrow> heap_ok P (fold enumerate_add_device found s)"
  by (induction found arbitrary: s) (simp_all add: heap_ok_enumerate_add)

lemma heap_ok_init: "heap_ok P s \<Longrightarrow> heap_ok P (snd (init e s))"
  by (cases e) (simp_all add: init_def enumerate_connected_devices_def Let_def heap_ok_reset
      heap_ok_fold_enumerate)

lemma heap_ok_term: "heap_ok P s \<Longrightarrow> heap_ok P (snd (term_manager s))"
  by (simp add: term_manager_def heap_ok_reset heap_ok_cong [of "(reset_device_records s)\<lparr>m_callback := None, m_callback_data := 0\<rparr>" "reset_device_records s"])

lemma heap_ok_register: "heap_ok P s \<Longrightarrow> heap_ok P (snd (register_callback cb d want s))"
  by (simp add: register_callback_def Let_def heap_ok_cong [of "s\<lparr>m_callback := cb, m_callback_data := d\<rparr>" s])

lemma monitor_event_locked_heap_ok:
  assumes inv: "heap_ok {} s" and ev: "monitor_event_locked found s = Inr (m, pc)"
  shows "heap_ok (mon_held pc) m"
proof (cases found)
  case None
  with assms show ?thesis by (simp add: monitor_event_locked_def)
next
  case (Some d)
  obtain h u where new: "udev_device_new d (udev s) = (h, u)" by fastforce
  from heap_ok_new [OF inv new] have inv1: "heap_ok {h} (s\<lparr>udev := u\<rparr>)" by simp
  show ?thesis
  proof (cases "udev_device_get_action u h")
    case None
    with ev Some new show ?thesis by (simp add: monitor_event_locked_def)
  next
    case (Some action)
    show ?thesis
    proof (cases "c_strncmp_eq action UDEV_ADD_EVENT (length UDEV_ADD_EVENT)")
      case True
      with ev \<open>found = Some d\<close> new Some have "m = snd (add_device_to_records h (s\<lparr>udev := u\<rparr>))"
        "pc = Mon_check True (m_last_used_identifier s + 1) 1"
        by (auto simp: monitor_event_locked_def add_device_to_records_eq)
      with heap_ok_add [of h "{}"] inv1 show ?thesis by simp
    next
      case notadd: False
      show ?thesis
      proof (cases "c_strncmp_eq action UDEV_REMOVE_EVENT (length UDEV_REMOVE_EVENT)")
        case True
        with ev \<open>found = Some d\<close> new Some notadd obtain res s2 where
          rm: "remove_device_from_records h (s\<lparr>udev := u\<rparr>) = Inr (res, s2)" and
          eq: "m = s2" "pc = Mon_release h (fst res) (snd res)"
          by (auto simp: monitor_event_locked_def split: sum.splits)
        from heap_ok_remove [OF rm inv1] eq show ?thesis by simp
      next
        case False
        with ev \<open>found = Some d\<close> new Some notadd have
          "m = s\<lparr>udev := u\<rparr>\<lparr>udev := udev_device_unref h u\<rparr>" "pc = Mon_idle"
          by (auto simp: monitor_event_locked_def)
        with heap_ok_unref [OF inv1, of h] show ?thesis by simp
      qed
    qed
  qed
qed

lemma conc_inv_shared_eq:
  "m_device_records (conc_shared s') = m_device_records (conc_shared s) \<Longrightarrow>
   udev (conc_shared s') = udev (conc_shared s) \<Longrightarrow> conc_mon s' = conc_mon s \<Longrightarrow>
   conc_inv s' = conc_inv s"
  unfolding conc_inv_def by (metis heap_ok_cong)

lemma conc_inv_receive:
  assumes inv: "conc_inv s" and st: "conc_step (Mon_receive found) s = Some (Inr s')"
  shows "conc_inv s'"
proof -
  obtain m pc where idle: "conc_mon s = Mon_idle" and
      ev: "monitor_event_locked found (conc_shared s) = Inr (m, pc)" and
      s': "s' = s\<lparr>conc_shared := m, conc_mon := pc\<rparr>"
    using st by (auto split: if_splits sum.splits)
  from inv idle have "heap_ok {} (conc_shared s)" by (simp add: conc_inv_def)
  from monitor_event_locked_heap_ok [OF this ev] s' show ?thesis by (simp add: conc_inv_def)
qed

lemma conc_inv_unref:
  assumes inv: "conc_inv s" and st: "conc_step Mon_unref s = Some (Inr s')"
  shows "conc_inv s'"
proof -
  obtain device res ident where pc: "conc_mon s = Mon_release device res ident"
    using st by (cases "conc_mon s") simp_all
  from inv pc have "heap_ok {device} (conc_shared s)" by (simp add: conc_inv_def)
  from heap_ok_unref [OF this] st pc show ?thesis by (auto simp: conc_inv_def Let_def)
qed

lemma conc_step_init_shared:
  "conc_step (Call_init e) s = Some (Inr s') \<Longrightarrow>
   conc_shared s' = snd (init e (conc_shared s)) \<and> conc_mon s' = conc_mon s"
  by (cases "conc_api s") (auto simp: Let_def split: prod.splits)

lemma conc_step_term_shared:
  "conc_step Call_term s = Some (Inr s') \<Longrightarrow>
   conc_shared s' = snd (term_manager (conc_shared s)) \<and> conc_mon s' = conc_mon s"
  by (cases "conc_api s") (auto simp: Let_def split: prod.splits)

lemma conc_step_register_shared:
  "conc_step (Call_register cb d want) s = Some (Inr s') \<Longrightarrow>
   conc_shared s' = snd (register_callback cb d want (conc_shared s)) \<and> conc_mon s' = conc_mon s"
  by (cases "conc_api s") (auto simp: Let_def split: prod.splits)

lemma conc_step_inv:
  assumes inv: "conc_inv s" and st: "conc_step a s = Some (Inr s')"
  shows "conc_inv s'"
proof (cases a)
  case (Mon_receive found)
  with inv st show ?thesis by (simp add: conc_inv_receive)
next
  case (Mon_control n)
  with st have s': "s' = s\<lparr>conc_shared := process_control_event n (conc_shared s)\<rparr>"
    by (simp split: if_splits)
  have "conc_inv s' = conc_inv s" by (rule conc_inv_shared_eq) (simp_all add: s')
  with inv show ?thesis by simp
next
  case Mon_unref
  with inv st show ?thesis by (simp add: conc_inv_unref)
next
  case Mon_test
  with st inv show ?thesis by (cases "conc_mon s") (auto simp: conc_inv_def)
next
  case Mon_invoke
  with st inv show ?thesis
    by (cases "conc_mon s") (auto simp: conc_inv_def split: option.splits)
next
  case (Call_init e)
  with st have "conc_shared s' = snd (init e (conc_shared s)) \<and> conc_mon s' = conc_mon s"
    by (simp add: conc_step_init_shared)
  with inv show ?thesis by (simp add: conc_inv_def heap_ok_init)
next
  case Call_term
  with st have "conc_shared s' = snd (term_manager (conc_shared s)) \<and> conc_mon s' = conc_mon s"
    by (simp add: conc_step_term_shared)
  with inv show ?thesis by (simp add: conc_inv_def heap_ok_term)
next
  case (Call_register cb d want)
  with st have "conc_shared s' = snd (register_callback cb d want (conc_shared s)) \<and> conc_mon s' = conc_mon s"
    by (simp add: conc_step_register_shared)
  with inv show ?thesis by (simp add: conc_inv_def heap_ok_register)
next
  case (Call_property_begin i k)
  with st inv show ?thesis by (cases "conc_api s") (auto simp: conc_inv_def)
next
  case Call_property_step
  with st inv show ?thesis
    by (cases "conc_api s") (auto simp: conc_inv_def split: option.splits if_splits)
next
  case Call_property_read
  with st inv show ?thesis
    by (cases "conc_api s") (auto simp: conc_inv_def Let_def split: option.splits)
qed

lemmas conc_ex_simps =
  ex_conc_start_def ex_manager_def ex_registry_def registry_initial_def udev_heap_empty_def
  enumerate_add_device_def udev_device_new_def add_device_to_records_eq monitor_event_locked_def
  ex_usb_device_def ex_node_short_def ex_node_other_def ex_remove_device_def
  remove_device_from_records_def udev_device_get_devnode_def udev_device_get_action_def
  UDEV_ADD_EVENT_def UDEV_REMOVE_EVENT_def c_strncmp_eq_def device_record_destroy_def
  udev_device_unref_def term_manager_def reset_device_records_def register_callback_def
  get_connected_devices_list_def Let_def

lemma conc_run_reach:
  "conc_run as s = Some (Inr s') \<Longrightarrow> conc_reach s0 s \<Longrightarrow> conc_reach s0 s'"
  by (induction as arbitrary: s) (auto split: option.splits sum.splits intro: reach_step)

lemma find_devnode_record_fault: "find_devnode_record dn rs = Inl f \<Longrightarrow> f = Null_dereference"
  by (induction dn rs rule: find_devnode_record.induct) (auto split: option.splits if_splits sum.splits)

lemma remove_device_from_records_fault:
  "remove_device_from_records device s = Inl f \<Longrightarrow> f = Null_dereference"
  by (auto simp: remove_device_from_records_def Let_def dest: find_devnode_record_fault
      split: option.splits sum.splits)

lemma monitor_event_locked_fault:
  "monitor_event_locked found s = Inl f \<Longrightarrow> f = Null_dereference"
  by (auto simp: monitor_event_locked_def Let_def dest: remove_device_from_records_fault
      split: option.splits sum.splits if_splits prod.splits)

lemma conc_inv_ex_conc_start: "conc_inv ex_conc_start"
proof -
  have "registry_inv {} (enumerate_add_device (Some (ex_usb_device ex_node_short)) registry_initial)"
    by (rule registry_inv_enumerate_add [OF registry_inv_initial]) (simp add: registry_initial_def INT_MAX_def)
  then have "registry_inv {} (ex_manager (ex_registry [ex_node_short]) (Some 100))"
    by (simp add: ex_registry_def)
  then show ?thesis by (simp add: conc_inv_def ex_conc_start_def registry_inv_heap_ok)
qed

text \<open>
  C25. In every interleaving of the monitor thread with the application's calls, started
  from a state where each device reference is owned exactly once, every reachable state
  keeps that ownership: each record's device object is live with one reference, the
  device the monitor holds between its locked section and its \<open>udev_device_unref\<close> is
  live and owned by it alone, and no other object has a reference. No bound on the
  identifier counter is needed for this half of the invariant.
\<close>

theorem conc_reach_preserves_heap_ok:
  assumes "conc_reach s0 s" and "conc_inv s0"
  shows "conc_inv s"
  using assms by (induction rule: conc_reach.induct) (auto intro: conc_step_inv)

theorem conc_reach_preserves_heap_ok_witness:
  "\<exists>s. conc_run [Mon_receive (Some (ex_usb_device ex_node_other)), Mon_test, Mon_invoke,
                  Mon_receive (Some (ex_remove_device ex_node_short))] ex_conc_start = Some (Inr s) \<and>
       conc_inv s"
proof -
  obtain s where run: "conc_run [Mon_receive (Some (ex_usb_device ex_node_other)), Mon_test, Mon_invoke,
                  Mon_receive (Some (ex_remove_device ex_node_short))] ex_conc_start = Some (Inr s)"
    by (simp add: conc_ex_simps)
  have "conc_reach ex_conc_start s" by (rule conc_run_reach [OF run reach_start])
  from conc_reach_preserves_heap_ok [OF this conc_inv_ex_conc_start] run show ?thesis by blast
qed

lemma conc_step_fault:
  assumes inv: "conc_inv s" and st: "conc_step a s = Some (Inl f)"
  shows "(\<exists>found. a = Mon_receive found \<and> f = Null_dereference) \<or>
    (a = Call_property_step \<and> f = Use_after_free \<and>
       (\<exists>identifier key h. conc_api s = Api_searching identifier key (Some h) \<and>
          h \<notin> m_device ` set (m_device_records (conc_shared s)))) \<or>
    (a = Call_property_read \<and> f = Use_after_free \<and>
       (\<exists>device key. conc_api s = Api_reading device key \<and>
          device \<notin> m_device ` set (m_device_records (conc_shared s)))) \<or>
    (a = Mon_invoke \<and> f = Null_function_call \<and> m_callback (conc_shared s) = None)"
proof (cases a)
  case (Mon_receive found)
  with st show ?thesis by (auto dest: monitor_event_locked_fault split: if_splits sum.splits)
next
  case Call_property_read
  then obtain device key where api: "conc_api s = Api_reading device key"
    and gone: "udev_objects (udev (conc_shared s)) device = None" and f: "f = Use_after_free"
    using st by (cases "conc_api s") (auto simp: Let_def split: option.splits)
  from inv have "\<forall>r\<in>set (m_device_records (conc_shared s)).
      udev_objects (udev (conc_shared s)) (m_device r) \<noteq> None"
    by (auto simp: conc_inv_def heap_ok_def owner_ok_def)
  with gone have "device \<notin> m_device ` set (m_device_records (conc_shared s))" by auto
  with api f Call_property_read show ?thesis by blast
next
  case Call_property_step
  then obtain ident key h where api: "conc_api s = Api_searching ident key (Some h)"
    and gone: "record_at h (m_device_records (conc_shared s)) = None" and f: "f = Use_after_free"
    using st by (cases "conc_api s") (auto split: option.splits if_splits)
  from gone have "h \<notin> m_device ` set (m_device_records (conc_shared s))"
    by (auto simp: record_at_def find_None_iff)
  with api f Call_property_step show ?thesis by blast
next
  case Mon_invoke
  with st show ?thesis by (cases "conc_mon s") (auto split: option.splits)
qed (use st in \<open>auto simp: Let_def split: if_splits mon_pc.splits api_pc.splits option.splits prod.splits\<close>)

text \<open>
  C26. In every interleaving of the two threads from a state with the memory invariant,
  the only faults are: a NULL action string or NULL node path in the monitor's locked
  section; \<open>get_property\<close>'s search dereferencing a record node that the monitor erased
  and deleted since the iterator reached it; \<open>get_property\<close> reading a device object
  that has left the registry since its search; and the monitor calling the callback after
  it was cleared between its test and its call.
\<close>

theorem conc_reach_faults:
  assumes "conc_reach s0 s" and "conc_inv s0" and "conc_step a s = Some (Inl f)"
  shows "(\<exists>found. a = Mon_receive found \<and> f = Null_dereference) \<or>
    (a = Call_property_step \<and> f = Use_after_free \<and>
       (\<exists>identifier key h. conc_api s = Api_searching identifier key (Some h) \<and>
          h \<notin> m_device ` set (m_device_records (conc_shared s)))) \<or>
    (a = Call_property_read \<and> f = Use_after_free \<and>
       (\<exists>device key. conc_api s = Api_reading device key \<and>
          device \<notin> m_device ` set (m_device_records (conc_shared s)))) \<or>
    (a = Mon_invoke \<and> f = Null_function_call \<and> m_callback (conc_shared s) = None)"
proof -
  from assms(1,2) have "conc_inv s" by (induction rule: conc_reach.induct) (auto intro: conc_step_inv)
  from conc_step_fault [OF this assms(3)] show ?thesis .
qed

theorem conc_reach_faults_witness:
  "\<exists>s. conc_run [Call_property_begin 1 ''idVendor'', Mon_receive (Some (ex_remove_device ex_node_short))]
         ex_conc_start = Some (Inr s) \<and>
       conc_step Call_property_step s = Some (Inl Use_after_free) \<and>
       (\<exists>identifier key h. conc_api s = Api_searching identifier key (Some h) \<and>
          h \<notin> m_device ` set (m_device_records (conc_shared s)))"
proof -
  obtain s where run: "conc_run [Call_property_begin 1 ''idVendor'', Mon_receive (Some (ex_remove_device ex_node_short))]
         ex_conc_start = Some (Inr s)" and st: "conc_step Call_property_step s = Some (Inl Use_after_free)"
    by (simp add: conc_ex_simps first_record_def record_at_def)
  have "conc_reach ex_conc_start s" by (rule conc_run_reach [OF run reach_start])
  from conc_reach_faults [OF this conc_inv_ex_conc_start st] run st show ?thesis by auto
qed

end
