(* ===== verification/Races.thy ===== *)
theory Races
  imports Concurrency
begin

text \<open>
  The races of the two threads, each stated for every state of the interleaving that
  satisfies the memory invariant: the monitor's "remove" against \<open>get_property\<close>'s
  unlocked search and read, \<open>term\<close> between the monitor's callback test and its call, and
  \<open>register_callback\<close> between the monitor's locked section and its notification.
\<close>

section \<open>Example\<close>

text \<open>The start state with two devices attached, \<open>001/002\<close> (identifier 1) and \<open>001/003\<close> (identifier 2).\<close>

definition ex_conc_two :: conc_state where
  "ex_conc_two =
     \<lparr>conc_shared = ex_manager (ex_registry [ex_node_short, ex_node_other]) (Some 100),
      conc_mon = Mon_idle, conc_api = Api_idle, conc_log = []\<rparr>"

section \<open>Lemmas\<close>

text \<open>
  A "remove" event whose node path selects the record at position \<open>j\<close> erases and
  deletes that record, and the device object it owned is freed: the record held the only
  reference.
\<close>

lemma monitor_remove_frees:
  assumes inv: "conc_inv s" and idle: "conc_mon s = Mon_idle" and on: "m_enable_monitoring (conc_shared s)"
    and act: "dev_action d = Some ''remove''" and dn: "dev_devnode d = Some dn"
    and found: "find_devnode_record dn (m_device_records (conc_shared s)) = Inr (Some j)"
  shows "\<exists>s'. conc_step (Mon_receive (Some d)) s = Some (Inr s') \<and> conc_api s' = conc_api s \<and>
    m_device_records (conc_shared s') = erase_at j (m_device_records (conc_shared s)) \<and>
    udev_objects (udev (conc_shared s')) (m_device (m_device_records (conc_shared s) ! j)) = None \<and>
    m_device (m_device_records (conc_shared s) ! j) \<notin> m_device ` set (m_device_records (conc_shared s'))"
proof -
  let ?m = "conc_shared s" and ?rs = "m_device_records (conc_shared s)"
  let ?r = "?rs ! j"
  obtain h u where new: "udev_device_new d (udev ?m) = (h, u)" by fastforce
  note nf = udev_device_new_fields [OF new]
  from inv idle have ok: "heap_ok {} ?m" by (simp add: conc_inv_def)
  from found have j: "j < length ?rs" by (rule find_devnode_record_Some [THEN conjunct1])
  then have rin: "?r \<in> set ?rs" by simp
  from heap_ok_new [OF ok new] rin have hr: "m_device ?r \<noteq> h" by auto
  from ok rin have one: "udev_refs (udev ?m) (m_device ?r) = 1"
    by (auto simp: heap_ok_def owner_ok_def)
  from ok have dist: "distinct (map m_device ?rs)" by (simp add: heap_ok_def owner_ok_def)
  have gone: "m_device ?r \<notin> m_device ` set (erase_at j ?rs)"
  proof -
    have "set (erase_at j (map m_device ?rs)) = set (map m_device ?rs) - {map m_device ?rs ! j}"
      using dist j by (intro set_erase_at_distinct) simp_all
    with j show ?thesis by (simp add: map_erase_at [symmetric])
  qed
  have dn': "udev_device_get_devnode u h = Some dn" and act': "udev_device_get_action u h = Some ''remove''"
    by (simp_all add: udev_device_get_devnode_def udev_device_get_action_def nf dn act)
  have cmp: "\<not> c_strncmp_eq ''remove'' UDEV_ADD_EVENT (length UDEV_ADD_EVENT)"
    "c_strncmp_eq ''remove'' UDEV_REMOVE_EVENT (length UDEV_REMOVE_EVENT)"
    by (simp_all add: c_strncmp_eq_def UDEV_ADD_EVENT_def UDEV_REMOVE_EVENT_def)
  have rm: "remove_device_from_records h (?m\<lparr>udev := u\<rparr>) =
      Inr ((True, m_identifier ?r), ?m\<lparr>udev := udev_device_unref (m_device ?r) u, m_device_records := erase_at j ?rs\<rparr>)"
    using dn' found by (simp add: remove_device_from_records_def device_record_destroy_def Let_def)
  have freed: "udev_objects (udev_device_unref (m_device ?r) u) (m_device ?r) = None"
    using one hr by (simp add: udev_device_unref_def nf)
  show ?thesis
    using idle on new act' cmp rm freed gone
    by (simp add: monitor_event_locked_def)
qed

lemma first_record_simps [simp]:
  "first_record [] = None" "first_record (r # rs) = Some (m_device r)"
  by (simp_all add: first_record_def)

lemma conc_run_append:
  "conc_run (as @ bs) s = (case conc_run as s of Some (Inr s') \<Rightarrow> conc_run bs s' | r \<Rightarrow> r)"
  by (induction as arbitrary: s) (auto split: option.split sum.split)

lemma record_at_split:
  "distinct (map m_device (pre @ r # post)) \<Longrightarrow> record_at (m_device r) (pre @ r # post) = Some r"
  by (induction pre) (auto simp: record_at_def)

lemma record_at_None: "h \<notin> m_device ` set rs \<Longrightarrow> record_at h rs = None"
  by (induction rs) (auto simp: record_at_def)

lemma record_after_split:
  "distinct (map m_device (pre @ r # post)) \<Longrightarrow> record_after (m_device r) (pre @ r # post) = first_record post"
  by (induction pre) auto

text \<open>
  The search passes, one iterator step each, over records whose identifier is not the one
  sought.
\<close>

lemma search_steps:
  assumes rs: "m_device_records (conc_shared s) = pre @ mid @ rest"
    and d: "distinct (map m_device (pre @ mid @ rest))"
    and api: "conc_api s = Api_searching i k (first_record (mid @ rest))"
    and other: "\<forall>r\<in>set mid. m_identifier r \<noteq> i"
  shows "conc_run (replicate (length mid) Call_property_step) s =
    Some (Inr (s\<lparr>conc_api := Api_searching i k (first_record rest)\<rparr>))"
  using assms
proof (induction mid arbitrary: pre s)
  case Nil
  then show ?case by simp
next
  case (Cons r mid)
  from Cons.prems(2) have d': "distinct (map m_device (pre @ r # mid @ rest))" by simp
  let ?s1 = "s\<lparr>conc_api := Api_searching i k (first_record (mid @ rest))\<rparr>"
  from Cons.prems(4) have ne: "i \<noteq> m_identifier r" by auto
  from Cons.prems(1,3) ne record_at_split [OF d'] record_after_split [OF d']
  have "conc_step Call_property_step s = Some (Inr ?s1)"
    by simp
  moreover have "conc_run (replicate (length mid) Call_property_step) ?s1 =
      Some (Inr (?s1\<lparr>conc_api := Api_searching i k (first_record rest)\<rparr>))"
    using Cons.IH [where pre = "pre @ [r]" and s = ?s1] Cons.prems by simp
  ultimately show ?case by simp
qed

text \<open>
  From an idle application thread, \<open>get_property\<close> for the identifier of record \<open>j\<close>
  (none before it has that identifier) reaches record \<open>j\<close> after \<open>j\<close> iterator steps.
\<close>

lemma search_reaches:
  assumes inv: "conc_inv s" and api: "conc_api s = Api_idle"
    and j: "j < length (m_device_records (conc_shared s))"
    and other: "\<forall>l<j. m_identifier (m_device_records (conc_shared s) ! l) \<noteq> i"
  shows "conc_run (Call_property_begin i k # replicate j Call_property_step) s =
    Some (Inr (s\<lparr>conc_api := Api_searching i k (Some (m_device (m_device_records (conc_shared s) ! j)))\<rparr>))"
proof -
  let ?rs = "m_device_records (conc_shared s)"
  from inv have d: "distinct (map m_device ([] @ take j ?rs @ drop j ?rs))"
    by (simp add: conc_inv_def heap_ok_def owner_ok_def)
  have o: "\<forall>r\<in>set (take j ?rs). m_identifier r \<noteq> i"
  proof
    fix r assume "r \<in> set (take j ?rs)"
    then obtain l where "l < j" "r = ?rs ! l" using j by (auto simp: in_set_conv_nth)
    with other show "m_identifier r \<noteq> i" by blast
  qed
  have fr: "first_record (drop j ?rs) = Some (m_device (?rs ! j))"
    using j by (simp add: first_record_def Cons_nth_drop_Suc [symmetric])
  let ?s1 = "s\<lparr>conc_api := Api_searching i k (first_record (take j ?rs @ drop j ?rs))\<rparr>"
  have "conc_step (Call_property_begin i k) s = Some (Inr ?s1)" using api by simp
  moreover have "conc_run (replicate (length (take j ?rs)) Call_property_step) ?s1 =
      Some (Inr (?s1\<lparr>conc_api := Api_searching i k (first_record (drop j ?rs))\<rparr>))"
    by (rule search_steps [OF _ d _ o]) simp_all
  ultimately show ?thesis using j fr by (simp add: min_def)
qed

lemma conc_inv_api [simp]: "conc_inv (s\<lparr>conc_api := a\<rparr>) = conc_inv s"
  by (simp add: conc_inv_def)

section \<open>The races\<close>

lemma monitor_add_locked:
  assumes idle: "conc_mon s = Mon_idle" and on: "m_enable_monitoring (conc_shared s)"
    and act: "dev_action d = Some ''add''"
  shows "\<exists>m'. conc_step (Mon_receive (Some d)) s = Some (Inr (s\<lparr>conc_shared := m',
      conc_mon := Mon_check True (m_last_used_identifier (conc_shared s) + 1) 1\<rparr>)) \<and>
    m_callback m' = m_callback (conc_shared s) \<and> m_callback_data m' = m_callback_data (conc_shared s) \<and>
    m' = snd (add_device_to_records (fst (udev_device_new d (udev (conc_shared s))))
      ((conc_shared s)\<lparr>udev := snd (udev_device_new d (udev (conc_shared s)))\<rparr>))"
proof -
  let ?m = "conc_shared s"
  obtain h u where new: "udev_device_new d (udev ?m) = (h, u)" by fastforce
  note nf = udev_device_new_fields [OF new]
  have act': "udev_device_get_action u h = Some ''add''"
    by (simp add: udev_device_get_action_def nf act)
  have cmp: "c_strncmp_eq ''add'' UDEV_ADD_EVENT (length UDEV_ADD_EVENT)"
    by (simp add: c_strncmp_eq_def UDEV_ADD_EVENT_def)
  show ?thesis
    using idle on new act' cmp by (simp add: monitor_event_locked_def add_device_to_records_eq)
qed

lemma registry_inv_ex_conc_two: "registry_inv {} (conc_shared ex_conc_two)"
  using registry_inv_ex_registry2 [of ex_node_short ex_node_other]
  by (simp add: ex_conc_two_def)

lemma conc_inv_ex_conc_two: "conc_inv ex_conc_two"
  using registry_inv_ex_conc_two by (simp add: conc_inv_def ex_conc_two_def registry_inv_heap_ok)

lemmas ex_conc_two_simps = ex_conc_two_def conc_ex_simps


text \<open>
  C8. \<open>get_property\<close> searches the registry without the lock: whenever its iterator
  stands on the record node that a "remove" event selects, and the monitor handles that
  event before the next iterator step, the search dereferences the deleted record.
\<close>

theorem get_property_search_remove_race:
  assumes inv: "conc_inv s" and idle: "conc_mon s = Mon_idle" and api: "conc_api s = Api_idle"
    and on: "m_enable_monitoring (conc_shared s)"
    and act: "dev_action d = Some ''remove''" and dn: "dev_devnode d = Some dn"
    and found: "find_devnode_record dn (m_device_records (conc_shared s)) = Inr (Some j)"
    and other: "\<forall>l<j. m_identifier (m_device_records (conc_shared s) ! l) \<noteq> i"
  shows "conc_run (Call_property_begin i k # replicate j Call_property_step @
      [Mon_receive (Some d), Call_property_step]) s = Some (Inl Use_after_free)"
proof -
  let ?rs = "m_device_records (conc_shared s)"
  from found have j: "j < length ?rs" by (rule find_devnode_record_Some [THEN conjunct1])
  let ?s1 = "s\<lparr>conc_api := Api_searching i k (Some (m_device (?rs ! j)))\<rparr>"
  from search_reaches [OF inv api j other, of k]
  have run: "conc_run (Call_property_begin i k # replicate j Call_property_step) s = Some (Inr ?s1)" .
  from monitor_remove_frees [of ?s1 d dn j] inv idle on act dn found
  obtain s2 where st: "conc_step (Mon_receive (Some d)) ?s1 = Some (Inr s2)"
    and a2: "conc_api s2 = Api_searching i k (Some (m_device (?rs ! j)))"
    and gone: "m_device (?rs ! j) \<notin> m_device ` set (m_device_records (conc_shared s2))"
    by auto
  from gone have "record_at (m_device (?rs ! j)) (m_device_records (conc_shared s2)) = None"
    by (rule record_at_None)
  with a2 have st2: "conc_step Call_property_step s2 = Some (Inl Use_after_free)" by simp
  have eq: "Call_property_begin i k # replicate j Call_property_step @ [Mon_receive (Some d), Call_property_step] =
      (Call_property_begin i k # replicate j Call_property_step) @ [Mon_receive (Some d), Call_property_step]"
    by simp
  show ?thesis
    unfolding eq conc_run_append run by (simp only: conc_run.simps st st2 option.case sum.case)
qed

theorem get_property_search_remove_race_witness:
  "conc_run (Call_property_begin 2 ''idVendor'' # replicate 1 Call_property_step @
      [Mon_receive (Some (ex_remove_device ex_node_other)), Call_property_step]) ex_conc_two =
    Some (Inl Use_after_free)"
  by (rule get_property_search_remove_race [OF conc_inv_ex_conc_two, where dn = ex_node_other])
    (simp_all add: ex_conc_two_simps less_Suc_eq)

text \<open>
  C27. \<open>get_property\<close> reads the device it found without the lock: whenever its search
  has found the record that a "remove" event selects and the monitor handles that event
  before the read, the read is a use after free, since the record held the only
  reference to the device object.
\<close>

theorem get_property_read_remove_race:
  assumes inv: "conc_inv s" and ids: "ids_ok (conc_shared s)" and idle: "conc_mon s = Mon_idle"
    and api: "conc_api s = Api_idle" and on: "m_enable_monitoring (conc_shared s)"
    and act: "dev_action d = Some ''remove''" and dn: "dev_devnode d = Some dn"
    and found: "find_devnode_record dn (m_device_records (conc_shared s)) = Inr (Some j)"
  shows "conc_run (Call_property_begin (m_identifier (m_device_records (conc_shared s) ! j)) k #
      replicate (Suc j) Call_property_step @ [Mon_receive (Some d), Call_property_read]) s =
    Some (Inl Use_after_free)"
proof -
  let ?rs = "m_device_records (conc_shared s)"
  let ?i = "m_identifier (?rs ! j)"
  from found have j: "j < length ?rs" by (rule find_devnode_record_Some [THEN conjunct1])
  from ids_ok_distinct [OF ids] j have other: "\<forall>l<j. m_identifier (?rs ! l) \<noteq> ?i"
    by (auto simp: distinct_conv_nth)
  let ?s1 = "s\<lparr>conc_api := Api_searching ?i k (Some (m_device (?rs ! j)))\<rparr>"
  from search_reaches [OF inv api j other, of k]
  have run: "conc_run (Call_property_begin ?i k # replicate j Call_property_step) s = Some (Inr ?s1)" .
  from inv have "distinct (map m_device ?rs)" by (simp add: conc_inv_def heap_ok_def owner_ok_def)
  with j have "record_at (m_device (?rs ! j)) ?rs = Some (?rs ! j)"
    using record_at_split [of "take j ?rs" "?rs ! j" "drop (Suc j) ?rs"]
    by (simp add: id_take_nth_drop [symmetric])
  then have st1: "conc_step Call_property_step ?s1 = Some (Inr (s\<lparr>conc_api := Api_reading (m_device (?rs ! j)) k\<rparr>))"
    by simp
  let ?s2 = "s\<lparr>conc_api := Api_reading (m_device (?rs ! j)) k\<rparr>"
  from monitor_remove_frees [of ?s2 d dn j] inv idle on act dn found
  obtain s3 where st: "conc_step (Mon_receive (Some d)) ?s2 = Some (Inr s3)"
    and a3: "conc_api s3 = Api_reading (m_device (?rs ! j)) k"
    and freed: "udev_objects (udev (conc_shared s3)) (m_device (?rs ! j)) = None"
    by auto
  from a3 freed have st3: "conc_step Call_property_read s3 = Some (Inl Use_after_free)" by (simp add: Let_def)
  have eq: "Call_property_begin ?i k # replicate (Suc j) Call_property_step @ [Mon_receive (Some d), Call_property_read] =
      (Call_property_begin ?i k # replicate j Call_property_step) @
        [Call_property_step, Mon_receive (Some d), Call_property_read]"
    by (induction j) auto
  show ?thesis
    unfolding eq conc_run_append run by (simp only: conc_run.simps st1 st st3 option.case sum.case)
qed

theorem get_property_read_remove_race_witness:
  "conc_run (Call_property_begin 2 ''idVendor'' # replicate 2 Call_property_step @
      [Mon_receive (Some (ex_remove_device ex_node_other)), Call_property_read]) ex_conc_two =
    Some (Inl Use_after_free)"
proof -
  have "conc_run (Call_property_begin (m_identifier (m_device_records (conc_shared ex_conc_two) ! 1)) ''idVendor'' #
      replicate (Suc 1) Call_property_step @ [Mon_receive (Some (ex_remove_device ex_node_other)), Call_property_read])
      ex_conc_two = Some (Inl Use_after_free)"
    by (rule get_property_read_remove_race [OF conc_inv_ex_conc_two, where dn = ex_node_other])
      (simp_all add: ex_conc_two_simps ids_ok_def registry_inv_ex_conc_two [unfolded registry_inv_heap_ok, THEN conjunct1])
  moreover have "m_identifier (m_device_records (conc_shared ex_conc_two) ! 1) = 2"
    by (simp add: ex_conc_two_simps)
  ultimately show ?thesis by (simp only: numeral_2_eq_2 One_nat_def)
qed


text \<open>
  C28. The monitor tests the callback pointer (line 503) and calls it (line 505) without
  the lock: after an "add" event, a \<open>term\<close> between the test and the call makes the
  monitor call through the NULL pointer \<open>term\<close> stored, while in the order test, call,
  \<open>term\<close> the same callback is notified of the new device.
\<close>

theorem monitor_term_callback_race:
  assumes idle: "conc_mon s = Mon_idle" and api: "conc_api s = Api_idle"
    and on: "m_enable_monitoring (conc_shared s)"
    and act: "dev_action d = Some ''add''" and cb: "m_callback (conc_shared s) = Some f"
  shows "conc_run [Mon_receive (Some d), Mon_test, Call_term, Mon_invoke] s = Some (Inl Null_function_call) \<and>
    (\<exists>s'. conc_run [Mon_receive (Some d), Mon_test, Mon_invoke, Call_term] s = Some (Inr s') \<and>
       conc_log s' = conc_log s @ [Called (Notify f (m_last_used_identifier (conc_shared s) + 1) 1
         (m_callback_data (conc_shared s))), Returned RUSBCTRL_SUCCESS])"
proof -
  from monitor_add_locked [OF idle on act] obtain m' where
    st: "conc_step (Mon_receive (Some d)) s = Some (Inr (s\<lparr>conc_shared := m',
      conc_mon := Mon_check True (m_last_used_identifier (conc_shared s) + 1) 1\<rparr>))"
    and c: "m_callback m' = m_callback (conc_shared s)" "m_callback_data m' = m_callback_data (conc_shared s)"
    by blast
  show ?thesis
    using st c cb api by (simp add: term_manager_def reset_device_records_def Let_def)
qed

theorem monitor_term_callback_race_witness:
  "conc_run [Mon_receive (Some (ex_usb_device ex_node_long)), Mon_test, Call_term, Mon_invoke] ex_conc_two =
     Some (Inl Null_function_call) \<and>
   (\<exists>s'. conc_run [Mon_receive (Some (ex_usb_device ex_node_long)), Mon_test, Mon_invoke, Call_term] ex_conc_two =
      Some (Inr s') \<and> conc_log s' = [Called (Notify 100 3 1 7), Returned RUSBCTRL_SUCCESS])"
  using monitor_term_callback_race [of ex_conc_two "ex_usb_device ex_node_long" 100]
  by (simp add: ex_conc_two_simps)

text \<open>
  C29. \<open>register_callback\<close> reports the device list under the lock while the monitor's
  call for an added device happens after it: if the device is added before the
  registration and the monitor calls the new callback afterwards, the new identifier
  is both in the list returned to the caller and notified to the callback.
\<close>

theorem register_callback_double_report:
  assumes idle: "conc_mon s = Mon_idle" and api: "conc_api s = Api_idle"
    and on: "m_enable_monitoring (conc_shared s)" and act: "dev_action d = Some ''add''"
    and ids: "ids_ok (conc_shared s)" and room: "sint (m_last_used_identifier (conc_shared s)) < INT_MAX"
  shows "\<exists>s' n l. conc_run [Mon_receive (Some d), Call_register (Some f) p True, Mon_test, Mon_invoke] s =
      Some (Inr s') \<and>
    conc_log s' = conc_log s @ [Listed (Some (n, Some l)),
      Called (Notify f (m_last_used_identifier (conc_shared s) + 1) 1 p)] \<and>
    m_last_used_identifier (conc_shared s) + 1 \<in> set l"
proof -
  let ?n = "m_last_used_identifier (conc_shared s) + 1"
  from monitor_add_locked [OF idle on act] obtain m' where
    st: "conc_step (Mon_receive (Some d)) s = Some (Inr (s\<lparr>conc_shared := m',
      conc_mon := Mon_check True ?n 1\<rparr>))"
    and m': "m' = snd (add_device_to_records (fst (udev_device_new d (udev (conc_shared s))))
      ((conc_shared s)\<lparr>udev := snd (udev_device_new d (udev (conc_shared s)))\<rparr>))"
    by blast
  from ids room have "ids_ok m'" unfolding m' by (intro ids_ok_add) simp_all
  then have le: "int (length (m_device_records m')) \<le> INT_MAX" by (rule ids_ok_length_le)
  have inl: "?n \<in> m_identifier ` set (m_device_records m')"
    unfolding m' by (simp add: add_device_to_records_eq)
  have ne: "(word_of_nat (length (m_device_records m')) :: c_int) \<noteq> 0"
  proof
    assume "(word_of_nat (length (m_device_records m')) :: c_int) = 0"
    then have "sint (word_of_nat (length (m_device_records m')) :: c_int) = 0" by simp
    with sint_of_nat_range [OF le] inl show False by auto
  qed
  show ?thesis
    using st api ne inl
    by (simp add: register_callback_def get_connected_devices_list_def Let_def)
qed

theorem register_callback_double_report_witness:
  "\<exists>s' n l. conc_run [Mon_receive (Some (ex_usb_device ex_node_long)), Call_register (Some 200) 9 True,
      Mon_test, Mon_invoke] ex_conc_two = Some (Inr s') \<and>
    conc_log s' = [Listed (Some (n, Some l)), Called (Notify 200 3 1 9)] \<and> 3 \<in> set l"
  using register_callback_double_report [of ex_conc_two "ex_usb_device ex_node_long" 200 9]
    registry_inv_ex_conc_two
  by (simp add: ex_conc_two_simps registry_inv_heap_ok INT_MAX_def)

end
