(* ===== verification/Stdin.thy ===== *)
theory Stdin
  imports Prelude
begin

text \<open>
  The part of \<open>std::istream\<close> that \<open>src/src/usbtest.cpp\<close> uses on \<open>std::cin\<close>, modelled
  on the characters still unread: formatted input of an \<open>int\<close> and of a
  \<open>std::string\<close>, and \<open>ignore(10000, '\n')\<close>. Both extractors skip leading white space
  first; an extraction that fails has still consumed what it read. The library is
  not part of the repository; the model follows the C++ standard ([istream.formatted],
  [facet.num.get.virtuals]) as libstdc++ implements it.
\<close>

definition NL :: char where
  "NL = CHR 0x0A"

definition is_space :: "char \<Rightarrow> bool" where
  "is_space c \<longleftrightarrow> c = CHR '' '' \<or> (9 \<le> (of_char c :: nat) \<and> (of_char c :: nat) \<le> 13)"

definition is_digit :: "char \<Rightarrow> bool" where
  "is_digit c \<longleftrightarrow> 48 \<le> (of_char c :: nat) \<and> (of_char c :: nat) \<le> 57"

definition digit_value :: "char \<Rightarrow> nat" where
  "digit_value c = of_char c - 48"

definition nat_of_digits :: "char list \<Rightarrow> nat" where
  "nat_of_digits ds = foldl (\<lambda>n c. 10 * n + digit_value c) 0 ds"

text \<open>
  \<open>operator>>(int&)\<close>: white space, an optional sign, the longest run of digits. No digit,
  or a value outside the range of \<open>int\<close>, sets \<open>failbit\<close> (\<open>None\<close>); the characters read
  are consumed either way.
\<close>

definition read_int :: "string \<Rightarrow> c_int option \<times> string" where
  "read_int s =
     (let s1 = dropWhile is_space s;
          (neg, s2) = (case s1 of
                         [] \<Rightarrow> (False, [])
                       | c # cs \<Rightarrow> if c = CHR ''-'' then (True, cs)
                                  else if c = CHR ''+'' then (False, cs) else (False, s1));
          ds = takeWhile is_digit s2;
          rest = dropWhile is_digit s2;
          v = (if neg then - int (nat_of_digits ds) else int (nat_of_digits ds))
      in if ds = [] \<or> v < - INT_MAX - 1 \<or> INT_MAX < v then (None, rest)
         else (Some (word_of_int v), rest))"

text \<open>\<open>operator>>(std::string&)\<close>: white space, then the characters up to the next one.\<close>

definition read_word :: "string \<Rightarrow> string option \<times> string" where
  "read_word s =
     (let s1 = dropWhile is_space s;
          w = takeWhile (\<lambda>c. \<not> is_space c) s1
      in (if w = [] then None else Some w, dropWhile (\<lambda>c. \<not> is_space c) s1))"

text \<open>\<open>ignore(n, delim)\<close>: drops up to \<open>n\<close> characters, stopping after \<open>delim\<close>.\<close>

fun istream_ignore :: "nat \<Rightarrow> char \<Rightarrow> string \<Rightarrow> string" where
  "istream_ignore 0 delim s = s"
| "istream_ignore (Suc n) delim [] = []"
| "istream_ignore (Suc n) delim (c # cs) = (if c = delim then cs else istream_ignore n delim cs)"

text \<open>Decimal printing, the inverse direction, for scripts of input.\<close>

fun string_of_nat :: "nat \<Rightarrow> string" where
  "string_of_nat n =
     (if n < 10 then [char_of (48 + n)] else string_of_nat (n div 10) @ [char_of (48 + n mod 10)])"

definition string_of_int :: "int \<Rightarrow> string" where
  "string_of_int i = (if i < 0 then CHR ''-'' # string_of_nat (nat (- i)) else string_of_nat (nat i))"

declare string_of_nat.simps [simp del]

section \<open>Lemmas on the stream model\<close>

lemma digit_char [simp]: "n < 10 \<Longrightarrow> is_digit (char_of (48 + n)) \<and> digit_value (char_of (48 + n)) = n"
  by (simp add: is_digit_def digit_value_def)

lemma nat_of_digits_snoc: "nat_of_digits (ds @ [c]) = 10 * nat_of_digits ds + digit_value c"
  by (simp add: nat_of_digits_def)

lemma string_of_nat_digits: "string_of_nat n \<noteq> [] \<and> (\<forall>c\<in>set (string_of_nat n). is_digit c)"
proof (induction n rule: string_of_nat.induct)
  case (1 n)
  show ?case
  proof (cases "n < 10")
    case True
    then show ?thesis by (simp add: string_of_nat.simps [of n])
  next
    case False
    with "1.IH" show ?thesis by (simp add: string_of_nat.simps [of n])
  qed
qed

lemma nat_of_digits_string_of_nat: "nat_of_digits (string_of_nat n) = n"
proof (induction n rule: string_of_nat.induct)
  case (1 n)
  show ?case
  proof (cases "n < 10")
    case True
    then show ?thesis by (subst string_of_nat.simps) (simp add: nat_of_digits_def)
  next
    case False
    with "1.IH" show ?thesis by (subst string_of_nat.simps) (simp add: nat_of_digits_snoc)
  qed
qed

lemma space_not_digit: "is_space c \<Longrightarrow> \<not> is_digit c"
  by (auto simp: is_space_def is_digit_def)

lemma digits_split:
  assumes "\<forall>c\<in>set ds. is_digit c" and "rest = [] \<or> is_space (hd rest)"
  shows "takeWhile is_digit (ds @ rest) = ds \<and> dropWhile is_digit (ds @ rest) = rest"
  using assms by (cases rest) (auto simp: takeWhile_append dropWhile_append space_not_digit)

lemma dropWhile_space_prefix:
  assumes "\<forall>c\<in>set pre. is_space c" and "xs = [] \<or> \<not> is_space (hd xs)"
  shows "dropWhile is_space (pre @ xs) = xs"
  using assms by (cases xs) (auto simp: dropWhile_append)

lemma minus_not_space: "\<not> is_space (CHR ''-'') \<and> \<not> is_digit (CHR ''-'') \<and> CHR ''-'' \<noteq> CHR ''+''"
  by (simp add: is_space_def is_digit_def)

lemma string_of_nat_hd: "\<not> is_space (hd (string_of_nat n)) \<and> hd (string_of_nat n) \<noteq> CHR ''-'' \<and>
    hd (string_of_nat n) \<noteq> CHR ''+''"
proof -
  from string_of_nat_digits [of n] have d: "is_digit (hd (string_of_nat n))" by simp
  then show ?thesis by (auto simp: is_space_def is_digit_def)
qed

lemma read_int_digits:
  assumes "\<forall>c\<in>set pre. is_space c" and "rest = [] \<or> is_space (hd rest)"
  shows "read_int (pre @ string_of_nat n @ rest) =
    (if int n \<le> INT_MAX then Some (word_of_int (int n)) else None, rest)"
proof -
  from string_of_nat_digits [of n] have ne: "string_of_nat n \<noteq> []"
    and dg: "\<forall>c\<in>set (string_of_nat n). is_digit c" by auto
  obtain c cs where sc: "string_of_nat n = c # cs" using ne by (cases "string_of_nat n") auto
  have dw: "dropWhile is_space (pre @ string_of_nat n @ rest) = string_of_nat n @ rest"
    using assms(1) string_of_nat_hd [of n] ne by (intro dropWhile_space_prefix) auto
  from string_of_nat_hd [of n] sc have c: "c \<noteq> CHR ''-''" "c \<noteq> CHR ''+''" by simp_all
  have sign: "(case string_of_nat n @ rest of
                 [] \<Rightarrow> (False, [])
               | c # cs \<Rightarrow> if c = CHR ''-'' then (True, cs)
                          else if c = CHR ''+'' then (False, cs) else (False, string_of_nat n @ rest)) =
      (False, string_of_nat n @ rest)"
    using sc c by simp
  from digits_split [OF dg assms(2)] dw sign ne show ?thesis
    by (simp add: read_int_def nat_of_digits_string_of_nat INT_MAX_def)
qed

lemma read_int_string_of_int_gen:
  assumes "\<forall>c\<in>set pre. is_space c" and "rest = [] \<or> is_space (hd rest)"
  shows "read_int (pre @ string_of_int i @ rest) =
    (if - INT_MAX - 1 \<le> i \<and> i \<le> INT_MAX then Some (word_of_int i) else None, rest)"
proof (cases "i < 0")
  case False
  with read_int_digits [OF assms(1,2), of "nat i"] show ?thesis
    by (simp add: string_of_int_def INT_MAX_def)
next
  case True
  let ?n = "nat (- i)"
  from string_of_nat_digits [of ?n] have ne: "string_of_nat ?n \<noteq> []"
    and dg: "\<forall>c\<in>set (string_of_nat ?n). is_digit c" by auto
  have dw: "dropWhile is_space (pre @ CHR ''-'' # string_of_nat ?n @ rest) =
      CHR ''-'' # string_of_nat ?n @ rest"
    using assms(1) minus_not_space by (intro dropWhile_space_prefix) auto
  from digits_split [OF dg assms(2)] dw True ne show ?thesis
    by (auto simp add: read_int_def string_of_int_def nat_of_digits_string_of_nat INT_MAX_def)
qed

lemma read_int_string_of_int:
  assumes "\<forall>c\<in>set pre. is_space c" and "rest = [] \<or> is_space (hd rest)"
    and "- INT_MAX - 1 \<le> i" and "i \<le> INT_MAX"
  shows "read_int (pre @ string_of_int i @ rest) = (Some (word_of_int i), rest)"
  using read_int_string_of_int_gen [OF assms(1,2), of i] assms(3,4) by simp

lemma read_word_roundtrip:
  assumes "\<forall>c\<in>set pre. is_space c" and "w \<noteq> []" and "\<forall>c\<in>set w. \<not> is_space c"
    and "rest = [] \<or> is_space (hd rest)"
  shows "read_word (pre @ w @ rest) = (Some w, rest)"
proof -
  have dw: "dropWhile is_space (pre @ w @ rest) = w @ rest"
    using assms(1-3) by (intro dropWhile_space_prefix) (cases w, auto)
  from assms(3,4) have "takeWhile (\<lambda>c. \<not> is_space c) (w @ rest) = w"
    "dropWhile (\<lambda>c. \<not> is_space c) (w @ rest) = rest"
    by (cases rest, auto simp: takeWhile_append dropWhile_append)+
  with dw assms(2) show ?thesis by (simp add: read_word_def)
qed

end
