(* ===== verification/Harness.thy ===== *)
theory Harness
  imports Facade Stdin
begin

text \<open>
  The interactive test application \<open>src/src/usbtest.cpp\<close>: its globals
  (\<open>connected_device_ids\<close>, \<open>callback_payload\<close>), the callback it registers (lines
  26--43), and the menu loop \<open>launcher\<close> (lines 79--173) reading commands from
  \<open>std::cin\<close> and calling the library. The library's state is the \<open>device_manager\<close> of the
  other theories; what the enumeration of \<open>rusbCtrl_init\<close> finds is the environment's
  (\<open>h_attached\<close>). Printing is modelled only where it can go wrong: \<open>operator<<\<close> on a
  \<open>const char *\<close> reads up to the terminator, so a NULL pointer is undefined and a buffer
  without terminator is read past its end.
\<close>

record harness =
  connected_device_ids :: "c_int list"
  callback_payload :: string
  h_manager :: device_manager
  h_attached :: enumeration

text \<open>
  The addresses the application passes: the function \<open>callback\<close> and the character
  buffer of \<open>callback_payload\<close>.
\<close>

definition harness_callback_ptr :: callback where
  "harness_callback_ptr = 1"

definition payload_ptr :: payload where
  "payload_ptr = 1"

definition cout_c_string :: "c_buffer option \<Rightarrow> fault + string" where
  "cout_c_string p =
     (case p of
        None \<Rightarrow> Inl Null_dereference
      | Some buf \<Rightarrow> (case c_buffer_string buf of None \<Rightarrow> Inl Buffer_over_read | Some str \<Rightarrow> Inr str))"

text \<open>
  \<open>callback\<close> (lines 26--43): on a connection it queries and prints the device's
  "product" and appends the identifier; on a removal it removes every occurrence
  (\<open>std::list::remove\<close>).
\<close>

definition callback :: "c_int \<Rightarrow> int \<Rightarrow> 'a harness_scheme \<Rightarrow> fault + 'a harness_scheme" where
  "callback dev_id connected h =
     (if connected \<noteq> 0 then
        (case cout_c_string (get_property dev_id ''product'' (h_manager h)) of
           Inl f \<Rightarrow> Inl f
         | Inr prop \<Rightarrow> Inr (h\<lparr>connected_device_ids := connected_device_ids h @ [dev_id]\<rparr>))
      else Inr (h\<lparr>connected_device_ids := removeAll dev_id (connected_device_ids h)\<rparr>))"

text \<open>The calls the monitor thread makes into the application, in order.\<close>

fun deliver :: "notification list \<Rightarrow> 'a harness_scheme \<Rightarrow> fault + 'a harness_scheme" where
  "deliver [] h = Inr h"
| "deliver (Notify cb dev_id connected data # ns) h =
     (case callback dev_id connected h of Inl f \<Rightarrow> Inl f | Inr h' \<Rightarrow> deliver ns h')"

text \<open>One wake-up of the library's monitor thread while the application runs.\<close>

definition harness_wakeup :: "wakeup \<Rightarrow> 'a harness_scheme \<Rightarrow> fault + 'a harness_scheme" where
  "harness_wakeup w h =
     (case monitor_iteration w (h_manager h) of
        Inl f \<Rightarrow> Inl f
      | Inr (m', ns) \<Rightarrow> deliver ns (h\<lparr>h_manager := m'\<rparr>))"

text \<open>
  One pass of the \<open>while(keep_running)\<close> loop of \<open>launcher\<close> (lines 84--171): the new
  \<open>keep_running\<close>, the state and the unread input. A failed extraction is followed by
  \<open>clear()\<close> and \<open>ignore(10000, '\n')\<close>. Option 3 frees \<open>device_list_ptr\<close>, which
  \<open>rusbCtrl_registerCallback\<close> sets only when the registry is not empty, after copying
  \<open>device_list_size\<close> entries of it (an \<open>int\<close> loop bound) into
  \<open>connected_device_ids\<close>.
\<close>

definition launcher_iteration :: "string \<Rightarrow> 'a harness_scheme \<Rightarrow> fault + bool \<times> 'a harness_scheme \<times> string" where
  "launcher_iteration input h =
     (case read_int input of
        (None, rest) \<Rightarrow> Inr (True, h, istream_ignore 10000 NL rest)
      | (Some choice, rest) \<Rightarrow>
          if choice = 1 then
            Inr (True, h\<lparr>h_manager := snd (init (h_attached h) (h_manager h))\<rparr>, rest)
          else if choice = 2 then
            Inr (True, h\<lparr>h_manager := snd (term_manager (h_manager h)), connected_device_ids := []\<rparr>, rest)
          else if choice = 3 then
            (case read_word rest of
               (None, rest') \<Rightarrow> Inr (True, h, istream_ignore 10000 NL rest')
             | (Some payload, rest') \<Rightarrow>
                 (let h1 = h\<lparr>callback_payload := payload\<rparr>;
                      ((result, listed), m') =
                        register_callback (Some harness_callback_ptr) payload_ptr True (h_manager h1);
                      h2 = h1\<lparr>h_manager := m'\<rparr>
                  in if result \<noteq> RUSBCTRL_SUCCESS then Inr (True, h2, rest')
                     else (case listed of
                             Some (device_list_size, Some device_list) \<Rightarrow>
                               if length device_list < nat (sint device_list_size)
                               then Inl Buffer_over_read
                               else Inr (True, h2\<lparr>connected_device_ids :=
                                   connected_device_ids h2 @
                                     take (nat (sint device_list_size)) device_list\<rparr>, rest')
                           | _ \<Rightarrow> Inl Invalid_free)))
          else if choice = 4 then
            (case read_int rest of
               (None, rest') \<Rightarrow> Inr (True, h, istream_ignore 10000 NL rest')
             | (Some dev_id, rest') \<Rightarrow>
                 (case read_word rest' of
                    (None, rest'') \<Rightarrow> Inr (True, h, istream_ignore 10000 NL rest'')
                  | (Some property, rest'') \<Rightarrow>
                      (case get_property dev_id property (h_manager h) of
                         None \<Rightarrow> Inr (True, h, rest'')
                       | Some result \<Rightarrow>
                           (case cout_c_string (Some result) of
                              Inl f \<Rightarrow> Inl f
                            | Inr str \<Rightarrow> Inr (True, h, rest'')))))
          else if choice = 5 then Inr (True, h, rest)
          else if choice = 9 then Inr (False, h, rest)
          else Inr (True, h, rest))"

text \<open>
  The loop itself, with fuel: \<open>None\<close> when the fuel runs out before option 9 is read.
  \<open>main\<close> (lines 175--179) runs it on the initial globals.
\<close>

fun launcher_loop :: "nat \<Rightarrow> string \<Rightarrow> 'a harness_scheme \<Rightarrow> (fault + 'a harness_scheme \<times> string) option" where
  "launcher_loop 0 input h = None"
| "launcher_loop (Suc n) input h =
     (case launcher_iteration input h of
        Inl f \<Rightarrow> Some (Inl f)
      | Inr (keep_running, h', input') \<Rightarrow>
          if keep_running then launcher_loop n input' h' else Some (Inr (h', input')))"

definition harness_initial :: "device_manager \<Rightarrow> enumeration \<Rightarrow> harness" where
  "harness_initial m e =
     \<lparr>connected_device_ids = [], callback_payload = ''Uninitialized'', h_manager = m, h_attached = e\<rparr>"

text \<open>
  \<open>main\<close> (lines 175--179): \<open>launcher()\<close> on the initial globals, then exit status 0;
  \<open>None\<close> when the fuel runs out, a fault when the loop faults.
\<close>

definition usbtest_main :: "nat \<Rightarrow> string \<Rightarrow> device_manager \<Rightarrow> enumeration \<Rightarrow> (fault + int) option" where
  "usbtest_main fuel input m e =
     (case launcher_loop fuel input (harness_initial m e) of
        None \<Rightarrow> None
      | Some (Inl f) \<Rightarrow> Some (Inl f)
      | Some (Inr _) \<Rightarrow> Some (Inr 0))"

text \<open>
  What \<open>print_menu\<close> (lines 49--58) and \<open>dump_connected_devices\<close> (lines 61--78) write
  to \<open>std::cout\<close>; an \<open>int\<close> is printed in decimal and \<open>std::endl\<close> writes a newline.
\<close>

definition print_menu :: string where
  "print_menu =
     [NL] @ ''--- libusbctrl test application menu ---'' @ [NL] @
     ''1. rusbbCtrl_init()'' @ [NL] @
     ''2. rusbbCtrl_term()'' @ [NL] @
     ''3. rusbCtrl_registerCallback()'' @ [NL] @
     ''4. rusbCtrl_getProperty()'' @ [NL] @
     ''5. List hot-plugged dev_ids (not thread-safe).'' @ [NL] @
     ''9. Quit.'' @ [NL]"

definition dump_connected_devices :: "c_int list \<Rightarrow> string" where
  "dump_connected_devices ids =
     ''Hot-plugged device ids:'' @ [NL] @
     (if 0 = length ids then ''No devices detected so far.'' @ [NL]
      else concat (map (\<lambda>i. ''['' @ string_of_int (sint i) @ ''] '') ids) @ [NL])"

text \<open>Scripts of menu commands, and their rendering as the characters typed.\<close>

datatype menu_command =
    Menu_init
  | Menu_term
  | Menu_register string
  | Menu_property int string
  | Menu_list
  | Menu_unknown int

fun render_command :: "menu_command \<Rightarrow> string" where
  "render_command Menu_init = ''1'' @ [NL]"
| "render_command Menu_term = ''2'' @ [NL]"
| "render_command (Menu_register w) = ''3'' @ [NL] @ w @ [NL]"
| "render_command (Menu_property i k) = ''4'' @ [NL] @ string_of_int i @ '' '' @ k @ [NL]"
| "render_command Menu_list = ''5'' @ [NL]"
| "render_command (Menu_unknown n) = string_of_int n @ [NL]"

definition word_ok :: "string \<Rightarrow> bool" where
  "word_ok w \<longleftrightarrow> w \<noteq> [] \<and> (\<forall>c\<in>set w. \<not> is_space c)"

definition int_ok :: "int \<Rightarrow> bool" where
  "int_ok i \<longleftrightarrow> - INT_MAX - 1 \<le> i \<and> i \<le> INT_MAX"

fun command_ok :: "menu_command \<Rightarrow> bool" where
  "command_ok (Menu_register w) = word_ok w"
| "command_ok (Menu_property i k) = (int_ok i \<and> word_ok k)"
| "command_ok (Menu_unknown n) = (int_ok n \<and> n \<notin> {1, 2, 3, 4, 5, 9})"
| "command_ok c = True"

text \<open>An example state of the application for the witnesses.\<close>

definition ex_harness :: "cstring list \<Rightarrow> callback option \<Rightarrow> c_int list \<Rightarrow> enumeration \<Rightarrow> harness" where
  "ex_harness nodes cb ids e =
     \<lparr>connected_device_ids = ids, callback_payload = ''cb'',
      h_manager = ex_manager (ex_registry nodes) cb, h_attached = e\<rparr>"

section \<open>Lemmas on the test application\<close>

lemma sint_word_of_int_ok: "int_ok i \<Longrightarrow> sint (word_of_int i :: c_int) = i"
  by (simp add: int_ok_def sint_word_of_int_range)

lemma space_chars [simp]: "is_space NL" "is_space CHR '' ''"
  by (simp_all add: is_space_def NL_def)

text \<open>
  \<open>dump_connected_devices\<close> prints one bracketed entry per identifier: a decimal
  number contains no bracket.
\<close>

lemma string_of_int_no_bracket: "CHR ''['' \<notin> set (string_of_int i)"
proof -
  have "\<not> is_digit CHR ''[''" by (simp add: is_digit_def)
  moreover have "\<forall>c\<in>set (string_of_nat n). is_digit c" for n using string_of_nat_digits [of n] by auto
  ultimately show ?thesis by (auto simp: string_of_int_def)
qed

lemma dump_connected_devices_entries:
  "length (filter (\<lambda>c. c = CHR ''['') (dump_connected_devices ids)) = length ids"
proof -
  have "length (filter (\<lambda>c. c = CHR ''['') (''['' @ string_of_int (sint i) @ ''] '')) = 1" for i :: c_int
    using string_of_int_no_bracket [of "sint i"] by (auto simp add: filter_empty_conv)
  then show ?thesis
    by (simp add: dump_connected_devices_def NL_def filter_concat length_concat comp_def sum_list_triv)
qed

lemma istream_ignore_Nil [simp]: "istream_ignore n delim [] = []"
  by (cases n) simp_all

lemma read_int_digit:
  assumes "\<forall>c\<in>set pre. is_space c" and "is_digit c" and "rest = [] \<or> is_space (hd rest)"
  shows "read_int (pre @ c # rest) = (Some (word_of_int (int (digit_value c))), rest)"
proof -
  have dw: "dropWhile is_space (pre @ c # rest) = c # rest"
    using assms(1,2) space_not_digit by (intro dropWhile_space_prefix) auto
  have c: "c \<noteq> CHR ''-''" "c \<noteq> CHR ''+''" using assms(2) by (auto simp: is_digit_def)
  from digits_split [of "[c]" rest] assms(2,3) have
    "takeWhile is_digit (c # rest) = [c]" "dropWhile is_digit (c # rest) = rest" by simp_all
  moreover have "int (digit_value c) \<le> 9" using assms(2) by (simp add: is_digit_def digit_value_def)
  ultimately show ?thesis using dw c
    by (simp add: read_int_def nat_of_digits_def INT_MAX_def)
qed

lemma read_int_eof:
  assumes "\<forall>c\<in>set input. is_space c"
  shows "read_int input = (None, [])"
proof -
  from assms have d: "dropWhile is_space input = []" by (simp add: dropWhile_eq_Nil_conv)
  show ?thesis unfolding read_int_def Let_def d by simp
qed

lemma launcher_iteration_eof:
  "\<forall>c\<in>set input. is_space c \<Longrightarrow> launcher_iteration input h = Inr (True, h, [])"
  by (simp add: launcher_iteration_def read_int_eof)

text \<open>
  C31. The menu loop never returns once \<open>std::cin\<close> is at end of input (only white space
  left): the failed extraction is followed by \<open>clear()\<close> and \<open>ignore\<close>, which consume
  nothing, and the loop reads again, printing "Oops!" forever. No amount of fuel suffices.
\<close>

theorem launcher_loop_eof:
  assumes "\<forall>c\<in>set input. is_space c"
  shows "launcher_loop n input h = None"
  using assms
proof (induction n arbitrary: input)
  case (Suc n)
  then show ?case by (simp add: launcher_iteration_eof)
qed simp

lemma read_menu_digit:
  assumes "\<forall>c\<in>set pre. is_space c" and "d < 10"
  shows "read_int (pre @ char_of (48 + d) # NL # rest) = (Some (of_nat d), NL # rest)"
  using read_int_digit [OF assms(1), of "char_of (48 + d)" "NL # rest"] assms(2) by simp

lemma menu_chars:
  "char_of (49 :: nat) = CHR ''1''" "char_of (50 :: nat) = CHR ''2''" "char_of (51 :: nat) = CHR ''3''"
  "char_of (52 :: nat) = CHR ''4''" "char_of (53 :: nat) = CHR ''5''" "char_of (57 :: nat) = CHR ''9''"
  using char_of_char [of "CHR ''1''"] char_of_char [of "CHR ''2''"] char_of_char [of "CHR ''3''"]
    char_of_char [of "CHR ''4''"] char_of_char [of "CHR ''5''"] char_of_char [of "CHR ''9''"]
  by simp_all

lemma read_menu_choice:
  assumes "\<forall>c\<in>set pre. is_space c"
  shows "read_int (pre @ CHR ''1'' # NL # rest) = (Some 1, NL # rest)"
    "read_int (pre @ CHR ''2'' # NL # rest) = (Some 2, NL # rest)"
    "read_int (pre @ CHR ''3'' # NL # rest) = (Some 3, NL # rest)"
    "read_int (pre @ CHR ''4'' # NL # rest) = (Some 4, NL # rest)"
    "read_int (pre @ CHR ''5'' # NL # rest) = (Some 5, NL # rest)"
    "read_int (pre @ CHR ''9'' # NL # rest) = (Some 9, NL # rest)"
  using read_menu_digit [OF assms, of 1 rest] read_menu_digit [OF assms, of 2 rest]
    read_menu_digit [OF assms, of 3 rest] read_menu_digit [OF assms, of 4 rest]
    read_menu_digit [OF assms, of 5 rest] read_menu_digit [OF assms, of 9 rest]
  by (simp_all add: menu_chars)

lemma register_callback_result:
  "fst (fst (register_callback cb d want s)) = RUSBCTRL_SUCCESS"
  by (simp add: register_callback_def Let_def)

lemma launcher_iteration_command:
  assumes pre: "\<forall>c\<in>set pre. is_space c" and ok: "command_ok c"
  shows "(\<exists>f. launcher_iteration (pre @ render_command c @ rest) h = Inl f) \<or>
    (\<exists>h' pre'. (\<forall>c\<in>set pre'. is_space c) \<and>
       launcher_iteration (pre @ render_command c @ rest) h = Inr (True, h', pre' @ rest))"
proof (cases c)
  case Menu_init
  with read_menu_choice [OF pre] show ?thesis
    by (auto simp: launcher_iteration_def intro!: exI [of _ "[NL]"])
next
  case Menu_term
  with read_menu_choice [OF pre] show ?thesis
    by (auto simp: launcher_iteration_def intro!: exI [of _ "[NL]"])
next
  case Menu_list
  with read_menu_choice [OF pre] show ?thesis
    by (auto simp: launcher_iteration_def intro!: exI [of _ "[NL]"])
next
  case (Menu_register w)
  with ok have w: "w \<noteq> []" "\<forall>c\<in>set w. \<not> is_space c" by (simp_all add: word_ok_def)
  have rw: "read_word (NL # w @ NL # rest) = (Some w, NL # rest)"
    using read_word_roundtrip [of "[NL]" w "NL # rest"] w by simp
  obtain r l m' where reg: "register_callback (Some harness_callback_ptr) payload_ptr True (h_manager h) = ((r, l), m')"
    by (metis prod.collapse)
  from register_callback_result [of "Some harness_callback_ptr" payload_ptr True "h_manager h"] reg
  have r: "r = RUSBCTRL_SUCCESS" by simp
  from Menu_register read_menu_choice(3) [OF pre, of "w @ NL # rest"] rw reg r show ?thesis
    by (auto simp: launcher_iteration_def Let_def intro!: exI [of _ "[NL]"] split: option.splits prod.splits)
next
  case (Menu_property i k)
  with ok have i: "int_ok i" and k: "k \<noteq> []" "\<forall>c\<in>set k. \<not> is_space c"
    by (simp_all add: word_ok_def)
  have ri: "read_int (NL # string_of_int i @ CHR '' '' # k @ NL # rest) = (Some (word_of_int i), CHR '' '' # k @ NL # rest)"
    using read_int_string_of_int [of "[NL]" "CHR '' '' # k @ NL # rest" i] i by (simp add: int_ok_def)
  have rw: "read_word (CHR '' '' # k @ NL # rest) = (Some k, NL # rest)"
    using read_word_roundtrip [of "[CHR '' '']" k "NL # rest"] k by simp
  from Menu_property read_menu_choice(4) [OF pre, of "string_of_int i @ CHR '' '' # k @ NL # rest"] ri rw
  show ?thesis
    by (auto simp: launcher_iteration_def intro!: exI [of _ "[NL]"] split: option.splits sum.splits)
next
  case (Menu_unknown n)
  with ok have n: "int_ok n" "n \<notin> {1, 2, 3, 4, 5, 9}" by simp_all
  have rn: "read_int (pre @ string_of_int n @ NL # rest) = (Some (word_of_int n), NL # rest)"
    using read_int_string_of_int [OF pre, of "NL # rest" n] n by (simp add: int_ok_def)
  have ne: "word_of_int n \<notin> {1, 2, 3, 4, 5, 9 :: c_int}"
  proof
    assume "word_of_int n \<in> {1, 2, 3, 4, 5, 9 :: c_int}"
    then have "sint (word_of_int n :: c_int) \<in> {1, 2, 3, 4, 5, 9}" by auto
    with sint_word_of_int_ok [OF n(1)] n(2) show False by simp
  qed
  from Menu_unknown rn ne show ?thesis
    by (auto simp: launcher_iteration_def intro!: exI [of _ "[NL]"])
qed

text \<open>
  C32. On a script of well-formed menu commands (words without white space, numbers in
  range, unknown choices other than 1--5 and 9) followed by the quit command, the loop
  returns within one pass per command plus one, whatever the library does.
\<close>

theorem launcher_script_returns:
  assumes "\<forall>c\<in>set cmds. command_ok c" and "\<forall>c\<in>set pre. is_space c"
  shows "\<exists>r. launcher_loop (Suc (length cmds))
      (pre @ concat (map render_command cmds) @ ''9'' @ [NL] @ rest) h = Some r"
  using assms
proof (induction cmds arbitrary: pre h)
  case Nil
  from read_menu_choice(6) [OF Nil.prems(2), of rest] show ?case
    by (simp add: launcher_iteration_def)
next
  case (Cons c cmds)
  let ?more = "concat (map render_command cmds) @ ''9'' @ [NL] @ rest"
  from Cons.prems have ok: "command_ok c" by simp
  from launcher_iteration_command [OF Cons.prems(2) ok, of ?more h]
  show ?case
  proof
    assume "\<exists>f. launcher_iteration (pre @ render_command c @ ?more) h = Inl f"
    then show ?thesis by auto
  next
    assume "\<exists>h' pre'. (\<forall>c\<in>set pre'. is_space c) \<and>
       launcher_iteration (pre @ render_command c @ ?more) h = Inr (True, h', pre' @ ?more)"
    then obtain h' pre' where sp: "\<forall>c\<in>set pre'. is_space c"
      and it: "launcher_iteration (pre @ render_command c @ ?more) h = Inr (True, h', pre' @ ?more)"
      by blast
    from Cons.IH [of pre' h'] Cons.prems(1) sp obtain r
      where "launcher_loop (Suc (length cmds)) (pre' @ ?more) h' = Some r" by auto
    with it show ?thesis by simp
  qed
qed

lemma cout_get_property_faults:
  assumes "\<forall>device v. find_record_device i (m_device_records m) = Some device \<longrightarrow>
      udev_device_get_sysattr_value (udev m) device k = Some v \<longrightarrow> c_string_ok v"
  shows "\<exists>f. cout_c_string (get_property i k m) = Inl f"
  using assms
  by (auto simp: get_property_def copy_property_def cout_c_string_def c_strncpy_strlen
      c_buffer_string_full split: option.splits)

lemma istream_ignore_line:
  "NL \<notin> set xs \<Longrightarrow> length xs < n \<Longrightarrow> istream_ignore n NL (xs @ NL # rest) = rest"
proof (induction xs arbitrary: n)
  case Nil
  then show ?case by (cases n) simp_all
next
  case (Cons x xs)
  then show ?case by (cases n) auto
qed

lemma space_chars_ne: "CHR '' '' \<noteq> NL"
  by (simp add: NL_def)

text \<open>
  C33. Option 4 reads back exactly the identifier typed: for a decimal in the range of a
  32-bit \<open>int\<close> the library is queried for that identifier (its signed value is the
  number typed) and the key typed; for one outside that range the extraction fails and
  the rest of the line is discarded, provided it is shorter than the 10000 characters
  \<open>ignore\<close> is allowed to skip.
\<close>

theorem launcher_property_roundtrip:
  assumes pre: "\<forall>c\<in>set pre. is_space c" and k: "word_ok k" and len: "length k < 9999"
  shows "launcher_iteration (pre @ render_command (Menu_property i k) @ rest) h =
      (if - INT_MAX - 1 \<le> i \<and> i \<le> INT_MAX then
         (case get_property (word_of_int i) k (h_manager h) of
            None \<Rightarrow> Inr (True, h, NL # rest)
          | Some result \<Rightarrow> map_sum id (\<lambda>str. (True, h, NL # rest)) (cout_c_string (Some result)))
       else Inr (True, h, rest)) \<and>
    (- INT_MAX - 1 \<le> i \<and> i \<le> INT_MAX \<longrightarrow> sint (word_of_int i :: c_int) = i)"
proof -
  from k have kw: "k \<noteq> []" "\<forall>c\<in>set k. \<not> is_space c" by (simp_all add: word_ok_def)
  have ri: "read_int (NL # string_of_int i @ CHR '' '' # k @ NL # rest) =
      (if - INT_MAX - 1 \<le> i \<and> i \<le> INT_MAX then Some (word_of_int i) else None, CHR '' '' # k @ NL # rest)"
    using read_int_string_of_int_gen [of "[NL]" "CHR '' '' # k @ NL # rest" i] by simp
  have rw: "read_word (CHR '' '' # k @ NL # rest) = (Some k, NL # rest)"
    using read_word_roundtrip [of "[CHR '' '']" k "NL # rest"] kw by simp
  have "NL \<notin> set k" using kw(2) space_chars(1) by blast
  then have nl: "NL \<notin> set (CHR '' '' # k)" using space_chars_ne by simp
  have ig: "istream_ignore 10000 NL (CHR '' '' # k @ NL # rest) = rest"
    using istream_ignore_line [OF nl, of 10000 rest] len by simp
  note r4 = read_menu_choice(4) [OF pre, of "string_of_int i @ CHR '' '' # k @ NL # rest"]
  show ?thesis
  proof (cases "- INT_MAX - 1 \<le> i \<and> i \<le> INT_MAX")
    case True
    with ri have ri': "read_int (NL # string_of_int i @ CHR '' '' # k @ NL # rest) =
        (Some (word_of_int i), CHR '' '' # k @ NL # rest)" by simp
    have "launcher_iteration (pre @ render_command (Menu_property i k) @ rest) h =
        (case get_property (word_of_int i) k (h_manager h) of
           None \<Rightarrow> Inr (True, h, NL # rest)
         | Some result \<Rightarrow> map_sum id (\<lambda>str. (True, h, NL # rest)) (cout_c_string (Some result)))"
      using r4 ri' rw
      by (simp add: launcher_iteration_def split: option.split sum.split)
    with True sint_word_of_int_range [of i] show ?thesis by simp
  next
    case False
    with ri have ri': "read_int (NL # string_of_int i @ CHR '' '' # k @ NL # rest) =
        (None, CHR '' '' # k @ NL # rest)" by simp
    from r4 ri' ig have "launcher_iteration (pre @ render_command (Menu_property i k) @ rest) h =
        Inr (True, h, rest)" by (simp add: launcher_iteration_def)
    with False show ?thesis by auto
  qed
qed

theorem launcher_property_roundtrip_witness:
  "launcher_iteration ([] @ render_command (Menu_property 1 ''idVendor'') @ [])
      (ex_harness [ex_node_short] None [] Enumerator_new_failed) =
    (case get_property 1 ''idVendor'' (h_manager (ex_harness [ex_node_short] None [] Enumerator_new_failed)) of
       None \<Rightarrow> Inr (True, ex_harness [ex_node_short] None [] Enumerator_new_failed, [NL])
     | Some result \<Rightarrow> map_sum id (\<lambda>str. (True, ex_harness [ex_node_short] None [] Enumerator_new_failed, [NL]))
         (cout_c_string (Some result))) \<and>
    sint (1 :: c_int) = 1"
  using launcher_property_roundtrip [of "[]" "''idVendor''" 1 "[]" "ex_harness [ex_node_short] None [] Enumerator_new_failed"]
  by (simp add: word_ok_def is_space_def INT_MAX_def)

text \<open>
  C34. The application's callback, on every connection notification, prints the
  device's "product" with \<open>operator<<\<close>: a device without that attribute gives NULL
  (undefined), and one with it gives \<open>get_property\<close>'s unterminated buffer, which is read
  past its end. So every connection notification ends in undefined behaviour.
\<close>

theorem callback_connected_faults:
  assumes "connected \<noteq> 0"
    and "\<forall>device v. find_record_device dev_id (m_device_records (h_manager h)) = Some device \<longrightarrow>
      udev_device_get_sysattr_value (udev (h_manager h)) device ''product'' = Some v \<longrightarrow> c_string_ok v"
  shows "\<exists>f. callback dev_id connected h = Inl f"
  using cout_get_property_faults [OF assms(2)] assms(1)
  by (auto simp: callback_def split: sum.splits)

text \<open>
  C35. Option 3 with an empty registry frees \<open>device_list_ptr\<close>, which was never set:
  \<open>rusbCtrl_registerCallback\<close> writes the pointer only for a non-empty list.
\<close>

theorem launcher_register_empty_registry:
  assumes "m_device_records (h_manager h) = []" and "word_ok w" and "\<forall>c\<in>set pre. is_space c"
  shows "launcher_iteration (pre @ render_command (Menu_register w) @ rest) h = Inl Invalid_free"
proof -
  have rw: "read_word (NL # w @ NL # rest) = (Some w, NL # rest)"
    using read_word_roundtrip [of "[NL]" w "NL # rest"] assms(2) by (simp add: word_ok_def)
  from read_menu_choice(3) [OF assms(3), of "w @ NL # rest"] rw assms(1) show ?thesis
    by (simp add: launcher_iteration_def register_callback_def get_connected_devices_list_def Let_def)
qed

lemma enumerate_fresh_ids:
  assumes inv: "registry_inv {} s" and room: "sint (m_last_used_identifier s) + int (length found) < INT_MAX"
  shows "\<forall>r\<in>set (m_device_records (fold enumerate_add_device found (reset_device_records s))).
     sint (m_last_used_identifier s) < sint (m_identifier r)"
proof -
  let ?s0 = "reset_device_records s"
  let ?k = "length (List.map_filter (\<lambda>d. d) found)"
  have empty: "m_device_records ?s0 = []" by (simp add: reset_device_records_def)
  have last0: "m_last_used_identifier ?s0 = m_last_used_identifier s" by (simp add: reset_device_records_def)
  have ids: "map m_identifier (m_device_records (fold enumerate_add_device found ?s0)) =
      map (\<lambda>i. m_last_used_identifier s + of_nat i) [1..<Suc ?k]"
    using fold_enumerate_add_device [of found ?s0] empty last0 by simp
  have k: "?k \<le> length found" by (induction found) (auto simp: map_filter_simps split: option.split)
  have nonneg: "0 \<le> sint (m_last_used_identifier s)" using inv by (simp add: registry_inv_def ids_ok_def)
  have "sint (m_last_used_identifier s + of_nat i) = sint (m_last_used_identifier s) + int i"
    if "i \<in> set [1..<Suc ?k]" for i
    using that k room nonneg by (intro sint_add_of_nat) auto
  then have "\<forall>x\<in>set (map (\<lambda>i. m_last_used_identifier s + of_nat i) [1..<Suc ?k]).
      sint (m_last_used_identifier s) < sint x" by auto
  then show ?thesis unfolding ids [symmetric] by simp
qed

text \<open>
  C36. Option 1 re-enumerates (the registry is emptied and refilled with fresh
  identifiers) but leaves \<open>connected_device_ids\<close> as it was: every identifier the
  application lists afterwards names no device of the registry.
\<close>

theorem launcher_init_stale_ids:
  assumes inv: "registry_inv {} (h_manager h)"
    and tracked: "set (connected_device_ids h) \<subseteq> m_identifier ` set (m_device_records (h_manager h))"
    and attached: "h_attached h = Scanned found"
    and room: "sint (m_last_used_identifier (h_manager h)) + int (length found) < INT_MAX"
    and pre: "\<forall>c\<in>set pre. is_space c"
  shows "\<exists>h'. launcher_iteration (pre @ render_command Menu_init @ rest) h = Inr (True, h', NL # rest) \<and>
    connected_device_ids h' = connected_device_ids h \<and>
    (\<forall>i\<in>set (connected_device_ids h'). i \<notin> m_identifier ` set (m_device_records (h_manager h')))"
proof -
  let ?m = "h_manager h"
  let ?m' = "fold enumerate_add_device found (reset_device_records ?m)"
  have it: "launcher_iteration (pre @ render_command Menu_init @ rest) h = Inr (True, h\<lparr>h_manager := ?m'\<rparr>, NL # rest)"
    using read_menu_choice(1) [OF pre, of rest] attached
    by (simp add: launcher_iteration_def init_def enumerate_connected_devices_def Let_def)
  have old: "\<forall>r\<in>set (m_device_records ?m). sint (m_identifier r) \<le> sint (m_last_used_identifier ?m)"
    using inv by (simp add: registry_inv_def ids_ok_def)
  have new: "\<forall>r\<in>set (m_device_records ?m'). sint (m_last_used_identifier ?m) < sint (m_identifier r)"
    by (rule enumerate_fresh_ids [OF inv room])
  have "i \<notin> m_identifier ` set (m_device_records ?m')" if "i \<in> set (connected_device_ids h)" for i
  proof
    assume "i \<in> m_identifier ` set (m_device_records ?m')"
    with new have "sint (m_last_used_identifier ?m) < sint i" by auto
    moreover from that tracked old have "sint i \<le> sint (m_last_used_identifier ?m)" by auto
    ultimately show False by simp
  qed
  with it show ?thesis by auto
qed

lemma removeAll_erase_at:
  "distinct xs \<Longrightarrow> i < length xs \<Longrightarrow> removeAll (xs ! i) xs = erase_at i xs"
  by (induction i xs rule: erase_at.induct) auto

lemma monitor_iteration_remove_shape:
  assumes inv: "registry_inv {} s" and act: "received w = Some d" "dev_action d = Some ''remove''"
    and it: "monitor_iteration w s = Inr (s', ns)"
  shows "m_callback s' = m_callback s \<and>
    ((m_device_records s' = m_device_records s \<and> ns = []) \<or>
     (\<exists>i < length (m_device_records s). m_device_records s' = erase_at i (m_device_records s) \<and>
        ns = dispatch_callback True (m_identifier (m_device_records s ! i)) 0 s))"
proof -
  have slots: "m_callback s' = m_callback s" using monitor_iteration_slots [OF it] by simp
  show ?thesis
  proof (cases "0 < select_ret w \<and> monitor_ready w")
    case False
    with it slots show ?thesis by (auto simp: monitor_iteration_def Let_def split: if_splits)
  next
    case True
    let ?s1 = "if control_ready w then process_control_event (control_read w) s else s"
    from True it act have ev: "process_udev_monitor_event (Some d) ?s1 = Inr (s', ns)"
      by (simp add: monitor_iteration_def Let_def)
    have same: "m_device_records ?s1 = m_device_records s" "m_callback ?s1 = m_callback s"
      "m_callback_data ?s1 = m_callback_data s" "udev ?s1 = udev s"
      by simp_all
    obtain h u where new: "udev_device_new d (udev ?s1) = (h, u)" by fastforce
    show ?thesis using ev new
    proof (cases rule: process_udev_monitor_event_cases)
      case (add action)
      with act show ?thesis by (simp add: c_strncmp_eq_def UDEV_ADD_EVENT_def)
    next
      case (remove action result ident s2)
      from remove_device_from_records_cases [OF remove(4)]
      show ?thesis
      proof
        assume "(result, ident) = (False, -1) \<and> s2 = ?s1\<lparr>udev := u\<rparr>"
        with remove same slots show ?thesis by (simp add: dispatch_callback_def)
      next
        assume "\<exists>dn i. udev_device_get_devnode (udev (?s1\<lparr>udev := u\<rparr>)) h = Some dn \<and>
          find_devnode_record dn (m_device_records (?s1\<lparr>udev := u\<rparr>)) = Inr (Some i) \<and>
          (result, ident) = (True, m_identifier (m_device_records (?s1\<lparr>udev := u\<rparr>) ! i)) \<and>
          s2 = ?s1\<lparr>udev := u\<rparr>\<lparr>udev := device_record_destroy (m_device_records (?s1\<lparr>udev := u\<rparr>) ! i)
                 (udev (?s1\<lparr>udev := u\<rparr>)),
               m_device_records := erase_at i (m_device_records (?s1\<lparr>udev := u\<rparr>))\<rparr>"
        then obtain dn i where f: "find_devnode_record dn (m_device_records s) = Inr (Some i)"
          and r: "result = True" "ident = m_identifier (m_device_records s ! i)"
          and s2: "m_device_records s2 = erase_at i (m_device_records s)"
          using same by auto
        from find_devnode_record_Some [OF f] have "i < length (m_device_records s)" by simp
        moreover have "ns = dispatch_callback True (m_identifier (m_device_records s ! i)) 0 s"
          using remove(6) r by (cases "control_ready w") (simp_all add: dispatch_callback_def process_control_event_def split: option.split)
        ultimately show ?thesis using remove(5) s2 slots by auto
      qed
    next
      case (other action)
      with act show ?thesis by (simp add: c_strncmp_eq_def UDEV_ADD_EVENT_def UDEV_REMOVE_EVENT_def)
    qed
  qed
qed

text \<open>
  C37. While the application's callback is registered and its list of identifiers is
  the registry's, a "remove" event handled by the monitor thread keeps the two equal:
  the registry drops the matched record and the callback drops its identifier.
\<close>

theorem harness_wakeup_remove_tracks:
  assumes inv: "registry_inv {} (h_manager h)"
    and tracks: "connected_device_ids h = map m_identifier (m_device_records (h_manager h))"
    and cb: "m_callback (h_manager h) = Some harness_callback_ptr"
    and act: "received w = Some d" "dev_action d = Some ''remove''"
    and wk: "harness_wakeup w h = Inr h'"
  shows "connected_device_ids h' = map m_identifier (m_device_records (h_manager h'))"
proof -
  obtain m' ns where it: "monitor_iteration w (h_manager h) = Inr (m', ns)"
    and dl: "deliver ns (h\<lparr>h_manager := m'\<rparr>) = Inr h'"
    using wk by (auto simp: harness_wakeup_def split: sum.splits)
  have dist: "distinct (map m_identifier (m_device_records (h_manager h)))"
    using inv by (simp add: registry_inv_def ids_ok_distinct)
  from monitor_iteration_remove_shape [OF inv act it] show ?thesis
  proof (elim conjE disjE exE)
    assume "m_device_records m' = m_device_records (h_manager h)" "ns = []"
    with dl tracks show ?thesis by auto
  next
    fix i assume i: "i < length (m_device_records (h_manager h))"
      and rs: "m_device_records m' = erase_at i (m_device_records (h_manager h))"
      and ns: "ns = dispatch_callback True (m_identifier (m_device_records (h_manager h) ! i)) 0 (h_manager h)"
    have "removeAll (m_identifier (m_device_records (h_manager h) ! i)) (connected_device_ids h) =
        map m_identifier (m_device_records m')"
      using removeAll_erase_at [OF dist, of i] i tracks rs by (simp add: map_erase_at)
    with dl ns cb show ?thesis by (auto simp: dispatch_callback_def callback_def)
  qed
qed

theorem launcher_loop_eof_witness:
  "launcher_loop 3 [NL] (ex_harness [] None [] Enumerator_new_failed) = None"
  by (rule launcher_loop_eof) simp

theorem launcher_script_returns_witness:
  "\<exists>r. launcher_loop (Suc (length [Menu_list, Menu_unknown 7]))
      ([] @ concat (map render_command [Menu_list, Menu_unknown 7]) @ ''9'' @ [NL] @ [])
      (ex_harness [] None [] Enumerator_new_failed) = Some r"
  by (rule launcher_script_returns) (simp_all add: word_ok_def int_ok_def INT_MAX_def)

theorem callback_connected_faults_witness:
  "\<exists>f. callback 1 1 (ex_harness [ex_node_short] (Some harness_callback_ptr) [] Enumerator_new_failed) = Inl f"
proof (rule callback_connected_faults)
  show "\<forall>device v. find_record_device 1 (m_device_records (h_manager
        (ex_harness [ex_node_short] (Some harness_callback_ptr) [] Enumerator_new_failed))) = Some device \<longrightarrow>
      udev_device_get_sysattr_value (udev (h_manager
        (ex_harness [ex_node_short] (Some harness_callback_ptr) [] Enumerator_new_failed))) device ''product'' = Some v \<longrightarrow>
      c_string_ok v"
    by (simp add: ex_harness_def ex_manager_def ex_registry_def registry_initial_def udev_heap_empty_def
        enumerate_add_device_def udev_device_new_def add_device_to_records_eq
        udev_device_get_sysattr_value_def ex_usb_device_def c_string_ok_def NUL_def)
qed simp

theorem launcher_register_empty_registry_witness:
  "launcher_iteration ([] @ render_command (Menu_register ''cb'') @ [])
     (ex_harness [] None [] Enumerator_new_failed) = Inl Invalid_free"
  by (rule launcher_register_empty_registry)
     (simp_all add: ex_harness_def ex_manager_def ex_registry_def registry_initial_def word_ok_def is_space_def)

lemma ex_harness2_inv: "registry_inv {} (h_manager (ex_harness [a, b] cb ids e))"
  by (simp add: ex_harness_def registry_inv_ex_registry2)

lemma ex_harness2_records:
  "m_device_records (h_manager (ex_harness [a, b] cb ids e)) =
     [\<lparr>m_identifier = 1, m_device = 1, m_devnode = Some a\<rparr>,
      \<lparr>m_identifier = 2, m_device = 2, m_devnode = Some b\<rparr>]"
  by (simp add: ex_harness_def ex_manager_def ex_registry2_records)

theorem launcher_init_stale_ids_witness:
  "\<exists>h'. launcher_iteration ([] @ render_command Menu_init @ [])
       (ex_harness [ex_node_short, ex_node_other] (Some harness_callback_ptr) [1, 2]
          (Scanned [Some (ex_usb_device ex_node_short)])) = Inr (True, h', NL # []) \<and>
     connected_device_ids h' = connected_device_ids (ex_harness [ex_node_short, ex_node_other]
          (Some harness_callback_ptr) [1, 2] (Scanned [Some (ex_usb_device ex_node_short)])) \<and>
     (\<forall>i\<in>set (connected_device_ids h'). i \<notin> m_identifier ` set (m_device_records (h_manager h')))"
proof (rule launcher_init_stale_ids)
  show "set (connected_device_ids (ex_harness [ex_node_short, ex_node_other] (Some harness_callback_ptr) [1, 2]
          (Scanned [Some (ex_usb_device ex_node_short)]))) \<subseteq>
      m_identifier ` set (m_device_records (h_manager (ex_harness [ex_node_short, ex_node_other]
          (Some harness_callback_ptr) [1, 2] (Scanned [Some (ex_usb_device ex_node_short)]))))"
    by (simp add: ex_harness2_records) (simp add: ex_harness_def)
  show "sint (m_last_used_identifier (h_manager (ex_harness [ex_node_short, ex_node_other]
          (Some harness_callback_ptr) [1, 2] (Scanned [Some (ex_usb_device ex_node_short)])))) +
      int (length [Some (ex_usb_device ex_node_short)]) < INT_MAX"
    by (simp add: ex_harness_def ex_manager_def ex_registry_def registry_initial_def
        enumerate_add_device_def udev_device_new_def add_device_to_records_eq INT_MAX_def
        udev_heap_empty_def Let_def)
qed (simp_all add: ex_harness2_inv ex_harness_def registry_inv_ex_registry2)

lemmas ex_harness_simps =
  ex_harness_def ex_manager_def ex_registry_def registry_initial_def udev_heap_empty_def
  enumerate_add_device_def udev_device_new_def add_device_to_records_eq ex_usb_device_def
  ex_node_short_def ex_node_other_def ex_remove_device_def ex_wakeup_def harness_wakeup_def
  monitor_iteration_def process_udev_monitor_event_def remove_device_from_records_def
  udev_device_get_devnode_def udev_device_get_action_def UDEV_ADD_EVENT_def UDEV_REMOVE_EVENT_def
  c_strncmp_eq_def dispatch_callback_def device_record_destroy_def udev_device_unref_def
  callback_def Let_def

theorem harness_wakeup_remove_tracks_witness:
  "\<exists>h'. harness_wakeup (ex_wakeup (Some (ex_remove_device ex_node_short)))
       (ex_harness [ex_node_short, ex_node_other] (Some harness_callback_ptr) [1, 2] Enumerator_new_failed) = Inr h' \<and>
     connected_device_ids h' = map m_identifier (m_device_records (h_manager h'))"
proof -
  let ?h = "ex_harness [ex_node_short, ex_node_other] (Some harness_callback_ptr) [1, 2] Enumerator_new_failed"
  let ?w = "ex_wakeup (Some (ex_remove_device ex_node_short))"
  obtain h' where wk: "harness_wakeup ?w ?h = Inr h'"
    by (simp add: ex_harness_simps)
  have "connected_device_ids h' = map m_identifier (m_device_records (h_manager h'))"
  proof (rule harness_wakeup_remove_tracks [where d = "ex_remove_device ex_node_short", OF ex_harness2_inv _ _ _ _ wk])
    show "connected_device_ids ?h = map m_identifier (m_device_records (h_manager ?h))"
      by (simp add: ex_harness2_records) (simp add: ex_harness_def)
  qed (simp_all add: ex_harness_def ex_manager_def ex_wakeup_def ex_remove_device_def ex_usb_device_def)
  with wk show ?thesis by blast
qed

end
