(* ===== verification/DumpRace.thy ===== *)
theory DumpRace
  imports Harness
begin

text \<open>
  \<open>dump_connected_devices\<close> of \<open>usbtest.cpp\<close> (lines 61--78) iterates over the global
  \<open>std::list<int> connected_device_ids\<close> on the application's thread, while the
  library's monitor thread runs \<open>callback\<close> (lines 26--43), which appends to the same
  list and removes from it; the function's comment says it is not thread-safe. The list
  is modelled with its nodes: each has an address, the iterator is the address of a node
  or \<open>end()\<close> (\<open>None\<close>), \<open>push_back\<close> allocates a fresh node and \<open>remove\<close> frees
  every node holding the value. One pass of the \<open>for\<close> loop (test, dereference, print,
  increment) is one step.
\<close>

record id_list =
  id_nodes :: "(nat \<times> c_int) list"
  id_next_addr :: nat

definition id_values :: "id_list \<Rightarrow> c_int list" where
  "id_values l = map snd (id_nodes l)"

definition id_push_back :: "c_int \<Rightarrow> id_list \<Rightarrow> id_list" where
  "id_push_back v l =
     l\<lparr>id_nodes := id_nodes l @ [(id_next_addr l, v)], id_next_addr := Suc (id_next_addr l)\<rparr>"

definition id_remove :: "c_int \<Rightarrow> id_list \<Rightarrow> id_list" where
  "id_remove v l = l\<lparr>id_nodes := filter (\<lambda>(a, x). x \<noteq> v) (id_nodes l)\<rparr>"

text \<open>\<open>begin()\<close> and \<open>++\<close>: the address of the first node, and of the node after a node.\<close>

definition first_node :: "(nat \<times> c_int) list \<Rightarrow> nat option" where
  "first_node ns = (case ns of [] \<Rightarrow> None | (a, x) # _ \<Rightarrow> Some a)"

fun node_after :: "nat \<Rightarrow> (nat \<times> c_int) list \<Rightarrow> nat option" where
  "node_after a [] = None"
| "node_after a ((b, x) # ns) = (if a = b then first_node ns else node_after a ns)"

definition id_list_ok :: "id_list \<Rightarrow> bool" where
  "id_list_ok l \<longleftrightarrow> distinct (map fst (id_nodes l)) \<and> (\<forall>a\<in>fst ` set (id_nodes l). a < id_next_addr l)"

datatype dump_pc = Dump_header | Dump_loop "nat option" | Dump_done

text \<open>One step of \<open>dump_connected_devices\<close>, with what it prints; \<open>None\<close> once it returned.\<close>

fun dump_step :: "id_list \<Rightarrow> dump_pc \<times> string \<Rightarrow> (fault + dump_pc \<times> string) option" where
  "dump_step l (Dump_header, out) =
     (let out1 = out @ ''Hot-plugged device ids:'' @ [NL]
      in if 0 = length (id_nodes l) then Some (Inr (Dump_done, out1 @ ''No devices detected so far.'' @ [NL]))
         else Some (Inr (Dump_loop (first_node (id_nodes l)), out1)))"
| "dump_step l (Dump_loop None, out) = Some (Inr (Dump_done, out @ [NL]))"
| "dump_step l (Dump_loop (Some a), out) =
     (case map_of (id_nodes l) a of
        None \<Rightarrow> Some (Inl Use_after_free)
      | Some v \<Rightarrow> Some (Inr (Dump_loop (node_after a (id_nodes l)), out @ ''['' @ string_of_int (sint v) @ ''] '')))"
| "dump_step l (Dump_done, out) = None"

fun dump_run :: "nat \<Rightarrow> id_list \<Rightarrow> dump_pc \<times> string \<Rightarrow> fault + dump_pc \<times> string" where
  "dump_run 0 l st = Inr st"
| "dump_run (Suc n) l st =
     (case dump_step l st of
        None \<Rightarrow> Inr st
      | Some (Inl f) \<Rightarrow> Inl f
      | Some (Inr st') \<Rightarrow> dump_run n l st')"

definition dump_entry :: "c_int \<Rightarrow> string" where
  "dump_entry v = ''['' @ string_of_int (sint v) @ ''] ''"

text \<open>The list after the callback reported devices 1 and 2.\<close>

definition ex_id_list :: id_list where
  "ex_id_list = id_push_back 2 (id_push_back 1 \<lparr>id_nodes = [], id_next_addr = 0\<rparr>)"

section \<open>Lemmas\<close>

lemma first_node_simps [simp]:
  "first_node [] = None" "first_node ((a, x) # ns) = Some a"
  by (simp_all add: first_node_def)

lemma node_after_split:
  "distinct (map fst (pre @ (a, v) # post)) \<Longrightarrow> node_after a (pre @ (a, v) # post) = first_node post"
  by (induction pre) auto

lemma map_of_split:
  "distinct (map fst (pre @ (a, v) # post)) \<Longrightarrow> map_of (pre @ (a, v) # post) a = Some v"
  by (induction pre) auto

lemma dump_run_add:
  "dump_run (m + n) l st = (case dump_run m l st of Inl f \<Rightarrow> Inl f | Inr st' \<Rightarrow> dump_run n l st')"
proof (induction m arbitrary: st)
  case 0
  then show ?case by simp
next
  case (Suc m)
  show ?case
  proof (cases "dump_step l st")
    case None
    then have "dump_run n l st = Inr st" by (cases n; cases st) (auto elim: dump_step.elims)
    with None show ?thesis by simp
  next
    case (Some r)
    with Suc.IH show ?thesis by (cases r) simp_all
  qed
qed

lemma dump_run_prefix:
  assumes "id_nodes l = pre @ mid @ rest" and "distinct (map fst (pre @ mid @ rest))"
  shows "dump_run (length mid) l (Dump_loop (first_node (mid @ rest)), out) =
    Inr (Dump_loop (first_node rest), out @ concat (map (\<lambda>n. dump_entry (snd n)) mid))"
  using assms
proof (induction mid arbitrary: pre out)
  case Nil
  then show ?case by simp
next
  case (Cons n mid)
  obtain a v where n: "n = (a, v)" by fastforce
  from Cons.prems n have d: "distinct (map fst (pre @ (a, v) # mid @ rest))" by simp
  from Cons.prems(1) n node_after_split [OF d] map_of_split [OF d]
  have na: "node_after a (id_nodes l) = first_node (mid @ rest)" and mv: "map_of (id_nodes l) a = Some v"
    by simp_all
  from Cons.IH [of "pre @ [n]" "out @ dump_entry v"] Cons.prems n na mv show ?case
    by (simp add: dump_entry_def)
qed

lemma map_of_filter_removed:
  "distinct (map fst ns) \<Longrightarrow> (a, v) \<in> set ns \<Longrightarrow> map_of (filter (\<lambda>(b, x). x \<noteq> v) ns) a = None"
  by (auto simp: map_of_eq_None_iff image_iff dest: eq_key_imp_eq_value)

lemma dump_header_step:
  "id_nodes l \<noteq> [] \<Longrightarrow>
    dump_step l (Dump_header, out) = Some (Inr (Dump_loop (first_node (id_nodes l)), out @ ''Hot-plugged device ids:'' @ [NL]))"
  by simp

lemma id_values_remove: "id_values (id_remove v l) = removeAll v (id_values l)"
proof -
  have "map snd (filter (\<lambda>(a, x). x \<noteq> v) ns) = removeAll v (map snd ns)" for ns :: "(nat \<times> c_int) list"
    by (induction ns) auto
  then show ?thesis by (simp add: id_values_def id_remove_def)
qed

lemma id_values_push_back: "id_values (id_push_back v l) = id_values l @ [v]"
  by (simp add: id_values_def id_push_back_def)

lemma id_list_ok_remove: "id_list_ok l \<Longrightarrow> id_list_ok (id_remove v l)"
  by (auto simp: id_list_ok_def id_remove_def distinct_map_filter)

lemma id_list_ok_push_back: "id_list_ok l \<Longrightarrow> id_list_ok (id_push_back v l)"
  by (auto simp: id_list_ok_def id_push_back_def)

text \<open>The application's \<open>callback\<close> for a removal is \<open>remove\<close> on the node list.\<close>

lemma callback_remove_nodes:
  assumes "connected_device_ids h = id_values l"
  shows "\<exists>h'. callback v 0 h = Inr h' \<and> connected_device_ids h' = id_values (id_remove v l)"
  using assms by (simp add: callback_def id_values_remove)

text \<open>
  Run without interference, the loop of \<open>dump_connected_devices\<close>, one iterator
  step at a time over the list's nodes, prints exactly the text of the reference
  definition \<open>dump_connected_devices\<close> on the list's values, within one step per node
  and two more.
\<close>

theorem dump_run_equiv:
  assumes "id_list_ok l"
  shows "dump_run (length (id_nodes l) + 2) l (Dump_header, out) =
    Inr (Dump_done, out @ dump_connected_devices (id_values l))"
proof (cases "id_nodes l = []")
  case True
  then show ?thesis by (simp add: dump_connected_devices_def id_values_def)
next
  case False
  let ?out1 = "out @ ''Hot-plugged device ids:'' @ [NL]"
  let ?body = "concat (map (\<lambda>n. dump_entry (snd n)) (id_nodes l))"
  from assms have d: "distinct (map fst ([] @ id_nodes l @ []))" by (simp add: id_list_ok_def)
  have h: "dump_step l (Dump_header, out) = Some (Inr (Dump_loop (first_node (id_nodes l)), ?out1))"
    using False by (simp add: Let_def)
  have r: "dump_run (length (id_nodes l)) l (Dump_loop (first_node (id_nodes l)), ?out1) =
      Inr (Dump_loop None, ?out1 @ ?body)"
    using dump_run_prefix [of l "[]" "id_nodes l" "[]", OF _ d] by simp
  have "dump_run (length (id_nodes l) + 2) l (Dump_header, out) = Inr (Dump_done, ?out1 @ ?body @ [NL])"
    using h r dump_run_add [of "length (id_nodes l)" 1 l] by simp
  with False show ?thesis
    by (simp add: dump_connected_devices_def id_values_def dump_entry_def comp_def)
qed

text \<open>
  C40. \<open>dump_connected_devices\<close> is not thread-safe (its comment says so): when the
  monitor thread reports the removal of the device whose node the iterator has reached,
  the application's \<open>callback\<close> removes that node from \<open>connected_device_ids\<close> and
  frees it, and the loop's next step dereferences the freed node.
\<close>

theorem dump_remove_race:
  assumes ok: "id_list_ok l" and k: "k < length (id_nodes l)" and ids: "connected_device_ids h = id_values l"
  shows "\<exists>out h'. dump_run (Suc k) l (Dump_header, []) = Inr (Dump_loop (Some (fst (id_nodes l ! k))), out) \<and>
    callback (snd (id_nodes l ! k)) 0 h = Inr h' \<and>
    connected_device_ids h' = id_values (id_remove (snd (id_nodes l ! k)) l) \<and>
    dump_step (id_remove (snd (id_nodes l ! k)) l) (Dump_loop (Some (fst (id_nodes l ! k))), out) =
      Some (Inl Use_after_free)"
proof -
  let ?n = "id_nodes l ! k"
  have split: "id_nodes l = [] @ take k (id_nodes l) @ drop k (id_nodes l)" by simp
  from ok have d: "distinct (map fst ([] @ take k (id_nodes l) @ drop k (id_nodes l)))"
    by (simp add: id_list_ok_def)
  have fst_drop: "first_node (drop k (id_nodes l)) = Some (fst ?n)"
    using k by (simp add: first_node_def Cons_nth_drop_Suc [symmetric] split: prod.split)
  have hd: "dump_step l (Dump_header, []) =
      Some (Inr (Dump_loop (first_node (take k (id_nodes l) @ drop k (id_nodes l))), ''Hot-plugged device ids:'' @ [NL]))"
    using k by (auto simp: Let_def)
  from dump_run_prefix [OF split d, of "''Hot-plugged device ids:'' @ [NL]"] k fst_drop
  have "dump_run k l (Dump_loop (first_node (take k (id_nodes l) @ drop k (id_nodes l))), ''Hot-plugged device ids:'' @ [NL]) =
      Inr (Dump_loop (Some (fst ?n)), ''Hot-plugged device ids:'' @ [NL] @
        concat (map (\<lambda>n. dump_entry (snd n)) (take k (id_nodes l))))"
    by simp
  with hd have run: "dump_run (Suc k) l (Dump_header, []) =
      Inr (Dump_loop (Some (fst ?n)), ''Hot-plugged device ids:'' @ [NL] @
        concat (map (\<lambda>n. dump_entry (snd n)) (take k (id_nodes l))))"
    by (simp only: dump_run.simps option.case sum.case)
  have "map_of (filter (\<lambda>(b, x). x \<noteq> snd ?n) (id_nodes l)) (fst ?n) = None"
    using ok k by (intro map_of_filter_removed) (simp_all add: id_list_ok_def)
  with run callback_remove_nodes [OF ids, of "snd ?n"] show ?thesis by (simp add: id_remove_def)
qed

theorem dump_run_equiv_witness:
  "id_list_ok ex_id_list \<and> dump_run 4 ex_id_list (Dump_header, []) = Inr (Dump_done, dump_connected_devices [1, 2])"
proof -
  have ok: "id_list_ok ex_id_list" by (simp add: ex_id_list_def id_list_ok_def id_push_back_def)
  from dump_run_equiv [OF ok, of "[]"] ok show ?thesis
    by (simp add: ex_id_list_def id_push_back_def id_values_def numeral_eq_Suc)
qed

theorem dump_remove_race_witness:
  "\<exists>out h'. dump_run 2 ex_id_list (Dump_header, []) = Inr (Dump_loop (Some 1), out) \<and>
    callback 2 0 (ex_harness [] None [1, 2] Enumerator_new_failed) = Inr h' \<and>
    connected_device_ids h' = [1] \<and>
    dump_step (id_remove 2 ex_id_list) (Dump_loop (Some 1), out) = Some (Inl Use_after_free)"
proof -
  have ok: "id_list_ok ex_id_list" and k: "1 < length (id_nodes ex_id_list)"
    and ids: "connected_device_ids (ex_harness [] None [1, 2] Enumerator_new_failed) = id_values ex_id_list"
    by (simp_all add: ex_id_list_def id_list_ok_def id_push_back_def id_values_def ex_harness_def)
  have n: "fst (id_nodes ex_id_list ! 1) = 1" "snd (id_nodes ex_id_list ! 1) = 2"
    "id_values (id_remove 2 ex_id_list) = [1]"
    by (simp_all add: ex_id_list_def id_push_back_def id_values_def id_remove_def)
  from dump_remove_race [OF ok k ids] n show ?thesis by (simp only: Suc_1)
qed

end
