(* ===== verification/Lifecycle.thy ===== *)
theory Lifecycle
  imports Facade
begin

text \<open>
  Construction and destruction of the static \<open>device_manager\<close> instance
  (\<open>usbctrl.cpp\<close> lines 108--163 and 165--199), with the file descriptors they open and
  close. What each libudev, \<open>pipe\<close> and \<open>pthread_create\<close> call returns is the
  environment's (\<open>ctor_env\<close>); \<open>udev_monitor_new_from_netlink\<close> opens the monitor's
  socket, whose number \<open>udev_monitor_get_fd\<close> returns, and \<open>udev_monitor_unref\<close> closes it
  (libudev, spec section 6). Every \<open>close\<close> is logged with whether the descriptor was
  open at the time. The instance has static storage, so before the constructor runs
  every member is zero.
\<close>

record process =
  proc_manager :: device_manager
  proc_fds :: "int list"
  proc_closes :: "(int \<times> bool) list"
  proc_thread_running :: bool

record ctor_env =
  env_udev_new :: bool
  env_monitor_new :: bool
  env_monitor_fd :: int
  env_filter_ok :: bool
  env_enable_ok :: bool
  env_pipe :: "(int \<times> int) option"
  env_thread_ok :: bool

definition sys_close :: "int \<Rightarrow> process \<Rightarrow> process" where
  "sys_close fd p =
     p\<lparr>proc_fds := removeAll fd (proc_fds p), proc_closes := proc_closes p @ [(fd, fd \<in> set (proc_fds p))]\<rparr>"

definition static_manager :: device_manager where
  "static_manager =
     \<lparr>m_device_records = [], m_last_used_identifier = 0, udev = udev_heap_empty, m_callback = None,
      m_callback_data = 0, m_enable_monitoring = False, m_udev_context = 0, m_monitor = 0,
      m_monitor_thread = 0, m_control_pipe = (0, 0)\<rparr>"

text \<open>
  The constructor: the initializer list, \<open>udev_new\<close>, the monitor (a NULL context gives
  a NULL monitor), and the \<open>do { ... } while(0)\<close> block whose failures \<open>break\<close> out.
  \<open>m_enable_monitoring\<close> is set before the monitor is created.
\<close>

definition device_manager_ctor :: "ctor_env \<Rightarrow> process" where
  "device_manager_ctor e =
     (let m0 = static_manager\<lparr>m_enable_monitoring := False, m_callback := None,
                               m_last_used_identifier := 0, m_monitor_thread := 0\<rparr>;
          m1 = m0\<lparr>m_udev_context := (if env_udev_new e then 1 else 0)\<rparr>;
          m2 = m1\<lparr>m_enable_monitoring := True\<rparr>;
          p0 = \<lparr>proc_manager = m2, proc_fds = [], proc_closes = [], proc_thread_running = False\<rparr>
      in if \<not> (env_udev_new e \<and> env_monitor_new e) then p0
         else
           (let p1 = p0\<lparr>proc_manager := m2\<lparr>m_monitor := 1\<rparr>, proc_fds := [env_monitor_fd e]\<rparr>
            in if \<not> env_filter_ok e then p1
               else if \<not> env_enable_ok e then p1
               else (case env_pipe e of
                       None \<Rightarrow> p1\<lparr>proc_manager := (proc_manager p1)\<lparr>m_control_pipe := (0, 0)\<rparr>\<rparr>
                     | Some (rfd, wfd) \<Rightarrow>
                         (let p2 = p1\<lparr>proc_manager := (proc_manager p1)\<lparr>m_control_pipe := (rfd, wfd)\<rparr>,
                                      proc_fds := proc_fds p1 @ [rfd, wfd]\<rparr>
                          in if env_thread_ok e
                             then p2\<lparr>proc_manager := (proc_manager p2)\<lparr>m_monitor_thread := 1\<rparr>,
                                     proc_thread_running := True\<rparr>
                             else p2\<lparr>proc_manager := (proc_manager p2)\<lparr>m_monitor_thread := 0\<rparr>\<rparr>))))"

text \<open>
  The end of the monitor thread (\<open>monitor_for_changes\<close>, lines 296--301 and 338): it
  closes the monitor's descriptor itself, unless \<open>udev_monitor_get_fd\<close> gave none.
\<close>

definition monitor_thread_exit :: "int \<Rightarrow> process \<Rightarrow> process" where
  "monitor_thread_exit monitor_fd p =
     (let p1 = (if monitor_fd \<le> 0 then p else sys_close monitor_fd p)
      in p1\<lparr>proc_thread_running := False\<rparr>)"

text \<open>
  The destructor. Closing the write end of the control pipe makes the monitor thread read
  end of file and leave its loop (or it finds \<open>m_enable_monitoring\<close> already clear), so
  \<open>pthread_join\<close> returns after the thread's exit. \<open>udev_monitor_unref\<close> closes the
  monitor's socket.
\<close>

definition device_manager_dtor :: "int \<Rightarrow> process \<Rightarrow> process" where
  "device_manager_dtor monitor_fd p =
     (let p1 = p\<lparr>proc_manager := (proc_manager p)\<lparr>m_enable_monitoring := False\<rparr>\<rparr>;
          (rfd, wfd) = m_control_pipe (proc_manager p1);
          p2 = (if 0 \<noteq> wfd then sys_close wfd p1 else p1);
          p3 = (if 0 \<noteq> m_monitor_thread (proc_manager p2) then monitor_thread_exit monitor_fd p2 else p2);
          p4 = (if 0 \<noteq> rfd then sys_close rfd p3 else p3);
          p5 = p4\<lparr>proc_manager := reset_device_records (proc_manager p4)\<rparr>;
          p6 = (if 0 \<noteq> m_monitor (proc_manager p5) then sys_close monitor_fd p5 else p5)
      in p6)"

definition ex_ctor_env :: ctor_env where
  "ex_ctor_env =
     \<lparr>env_udev_new = True, env_monitor_new = True, env_monitor_fd = 5, env_filter_ok = True,
      env_enable_ok = True, env_pipe = Some (6, 7), env_thread_ok = True\<rparr>"

definition pipe_fds_ok :: "ctor_env \<Rightarrow> bool" where
  "pipe_fds_ok e \<longleftrightarrow>
     (case env_pipe e of
        None \<Rightarrow> True
      | Some (rfd, wfd) \<Rightarrow> rfd \<noteq> 0 \<and> wfd \<noteq> 0 \<and> distinct [env_monitor_fd e, rfd, wfd])"

section \<open>Lemmas on construction and destruction\<close>


lemma reset_device_records_manager [simp]:
  "m_monitor (reset_device_records s) = m_monitor s"
  "m_monitor_thread (reset_device_records s) = m_monitor_thread s"
  "m_control_pipe (reset_device_records s) = m_control_pipe s"
  "m_device_records (reset_device_records s) = []"
  by (simp_all add: reset_device_records_def)

text \<open>A constructor that started the monitor thread has all its descriptors open.\<close>

lemma device_manager_ctor_running:
  assumes "proc_thread_running (device_manager_ctor e)"
  obtains rfd wfd where "env_pipe e = Some (rfd, wfd)"
    "m_control_pipe (proc_manager (device_manager_ctor e)) = (rfd, wfd)"
    "proc_fds (device_manager_ctor e) = [env_monitor_fd e, rfd, wfd]"
    "m_monitor (proc_manager (device_manager_ctor e)) = 1"
    "m_monitor_thread (proc_manager (device_manager_ctor e)) = 1"
  using assms
  by (cases "env_pipe e") (auto simp: device_manager_ctor_def static_manager_def Let_def split: if_splits)

lemma device_manager_ctor_not_running:
  "\<not> proc_thread_running (device_manager_ctor e) \<Longrightarrow>
    m_monitor_thread (proc_manager (device_manager_ctor e)) = 0"
  by (auto simp: device_manager_ctor_def static_manager_def Let_def split: option.splits)

lemmas lifecycle_simps = device_manager_ctor_def device_manager_dtor_def static_manager_def
  sys_close_def monitor_thread_exit_def Let_def

text \<open>
  Whatever the set-up calls return, the destructor closes every descriptor the
  constructor opened, provided \<open>pipe\<close> returned descriptors other than 0 (the code
  uses 0 to mean "no descriptor" and would leave a pipe end at descriptor 0 open).
\<close>

lemma device_manager_dtor_ctor_fds:
  assumes "pipe_fds_ok e"
  shows "proc_fds (device_manager_dtor (env_monitor_fd e) (device_manager_ctor e)) = []"
proof (cases "env_udev_new e \<and> env_monitor_new e \<and> env_filter_ok e \<and> env_enable_ok e")
  case False
  then show ?thesis by (auto simp: lifecycle_simps)
next
  case True
  show ?thesis
  proof (cases "env_pipe e")
    case None
    with True show ?thesis by (simp add: lifecycle_simps)
  next
    case (Some fds)
    then obtain rfd wfd where p: "env_pipe e = Some (rfd, wfd)" by (cases fds) auto
    with assms have ok: "rfd \<noteq> 0" "wfd \<noteq> 0" "env_monitor_fd e \<noteq> rfd" "env_monitor_fd e \<noteq> wfd" "rfd \<noteq> wfd"
      by (simp_all add: pipe_fds_ok_def)
    show ?thesis
      using True p ok by (cases "env_thread_ok e"; cases "env_monitor_fd e \<le> 0") (simp_all add: lifecycle_simps)
  qed
qed

text \<open>
  C38. When the constructor succeeds and the monitor thread runs, the destructor closes
  the monitor's socket twice: the thread closes \<open>monitor_fd\<close> when it leaves its loop
  (line 338), and \<open>udev_monitor_unref\<close> closes the same descriptor again, by then closed
  (or already reused by another open).
\<close>

theorem lifecycle_double_close:
  assumes "env_udev_new e" "env_monitor_new e" "env_filter_ok e" "env_enable_ok e"
    "env_pipe e = Some (rfd, wfd)" "env_thread_ok e" "0 < env_monitor_fd e"
    "pipe_fds_ok e"
  shows "proc_closes (device_manager_dtor (env_monitor_fd e) (device_manager_ctor e)) =
    [(wfd, True), (env_monitor_fd e, True), (rfd, True), (env_monitor_fd e, False)]"
proof -
  from assms have ok: "rfd \<noteq> 0" "wfd \<noteq> 0" "env_monitor_fd e \<noteq> rfd" "env_monitor_fd e \<noteq> wfd" "rfd \<noteq> wfd"
    by (simp_all add: pipe_fds_ok_def)
  with assms show ?thesis by (simp add: lifecycle_simps)
qed


theorem lifecycle_double_close_witness:
  "proc_closes (device_manager_dtor (env_monitor_fd ex_ctor_env) (device_manager_ctor ex_ctor_env)) =
     [(7, True), (5, True), (6, True), (5, False)]"
  using lifecycle_double_close [of ex_ctor_env 6 7]
  by (simp add: ex_ctor_env_def pipe_fds_ok_def)

end
