(* ===== verification/Shutdown.thy ===== *)
theory Shutdown
  imports Lifecycle
begin

text \<open>
  The shutdown handshake between the destructor and the monitor thread, over the control
  pipe. \<open>select\<close> (line 311, no timeout) returns when the udev monitor has an event, when
  the control pipe is readable, or with -1 on an error; it never returns 0. Nothing in the
  library writes to the pipe, so its read end becomes readable only at end of file, once
  the destructor has closed the write end (lines 168--173); \<open>read\<close> then returns 0
  (line 283). The environment chooses the udev events and the failures of \<open>select\<close>.
\<close>

datatype select_event = Udev_ready "udev_device option" | Select_error

text \<open>
  The wake-ups of the monitor thread: \<open>write_open\<close> tells whether the write end of the
  control pipe is still open. Once it is closed the read end is ready in every wake-up,
  and with no udev event pending \<open>select\<close> still returns for the pipe alone.
\<close>

fun select_wakeups :: "bool \<Rightarrow> select_event list \<Rightarrow> wakeup list" where
  "select_wakeups write_open [] =
     (if write_open then []
      else [\<lparr>select_ret = 1, control_ready = True, monitor_ready = False, control_read = 0,
             received = None\<rparr>])"
| "select_wakeups write_open (Udev_ready found # es) =
     \<lparr>select_ret = (if write_open then 1 else 2), control_ready = (\<not> write_open), monitor_ready = True,
      control_read = 0, received = found\<rparr> # select_wakeups write_open es"
| "select_wakeups write_open (Select_error # es) =
     \<lparr>select_ret = -1, control_ready = False, monitor_ready = False, control_read = 0,
      received = None\<rparr> # select_wakeups write_open es"

text \<open>
  \<open>monitor_thread_wrapper\<close> (lines 200--204) runs \<open>monitor_for_changes\<close> on the object
  it is given.
\<close>

definition monitor_thread_wrapper ::
  "int \<Rightarrow> wakeup list \<Rightarrow> process \<Rightarrow> device_manager loop_outcome" where
  "monitor_thread_wrapper monitor_fd ws p = monitor_for_changes monitor_fd ws (proc_manager p)"

text \<open>
  A monitor thread blocked in \<open>select\<close>: it tested \<open>m_enable_monitoring\<close> before it
  blocked, so the pending pass runs whatever the flag holds now, and the loop test comes
  after it.
\<close>

definition monitor_resume ::
  "wakeup list \<Rightarrow> 'a device_manager_scheme \<Rightarrow> 'a device_manager_scheme loop_outcome" where
  "monitor_resume ws s =
     (case ws of
        [] \<Rightarrow> Loop_waiting s []
      | w # ws' \<Rightarrow>
          (case monitor_iteration w s of
             Inl f \<Rightarrow> Loop_fault f []
           | Inr (s', ns) \<Rightarrow> prepend_notifications ns (monitor_loop ws' s')))"

text \<open>
  \<open>pthread_join\<close> on the monitor thread: \<open>None\<close> while the thread stays blocked, else the
  thread's end (line 338, \<open>monitor_thread_exit\<close>) with the callbacks it made.
\<close>

definition thread_join ::
  "int \<Rightarrow> device_manager loop_outcome \<Rightarrow> process \<Rightarrow> (fault + process \<times> notification list) option" where
  "thread_join monitor_fd r p =
     (case r of
        Loop_stopped m ns \<Rightarrow> Some (Inr (monitor_thread_exit monitor_fd (p\<lparr>proc_manager := m\<rparr>), ns))
      | Loop_waiting m ns \<Rightarrow> None
      | Loop_fault f ns \<Rightarrow> Some (Inl f))"

text \<open>
  The destructor (lines 165--199) with the monitor thread run to its end: it clears
  \<open>m_enable_monitoring\<close> without the lock, closes the write end, and joins the thread if
  one was started; a thread still running is blocked in \<open>select\<close>.
\<close>

definition device_manager_dtor_join ::
  "int \<Rightarrow> select_event list \<Rightarrow> process \<Rightarrow> (fault + process \<times> notification list) option" where
  "device_manager_dtor_join monitor_fd es p =
     (let p1 = p\<lparr>proc_manager := (proc_manager p)\<lparr>m_enable_monitoring := False\<rparr>\<rparr>;
          (rfd, wfd) = m_control_pipe (proc_manager p1);
          p2 = (if 0 \<noteq> wfd then sys_close wfd p1 else p1);
          joined = (if 0 \<noteq> m_monitor_thread (proc_manager p2) \<and> proc_thread_running p2
                    then thread_join monitor_fd
                           (monitor_resume (select_wakeups (wfd \<in> set (proc_fds p2)) es) (proc_manager p2)) p2
                    else Some (Inr (p2, [])))
      in case joined of
           None \<Rightarrow> None
         | Some (Inl f) \<Rightarrow> Some (Inl f)
         | Some (Inr (p3, ns)) \<Rightarrow>
             (let p4 = (if 0 \<noteq> rfd then sys_close rfd p3 else p3);
                  p5 = p4\<lparr>proc_manager := reset_device_records (proc_manager p4)\<rparr>;
                  p6 = (if 0 \<noteq> m_monitor (proc_manager p5) then sys_close monitor_fd p5 else p5)
              in Some (Inr (p6, ns))))"

fun prepend_joined ::
  "notification list \<Rightarrow> (fault + process \<times> notification list) option \<Rightarrow> (fault + process \<times> notification list) option" where
  "prepend_joined ns (Some (Inr (p, ms))) = Some (Inr (p, ns @ ms))"
| "prepend_joined ns r = r"

text \<open>
  The library's life in a process: the static instance is constructed, the monitor thread
  handles the events \<open>es0\<close> while the write end is open, then the destructor runs and the
  thread sees the events \<open>es1\<close>.
\<close>

definition library_lifetime ::
  "ctor_env \<Rightarrow> select_event list \<Rightarrow> select_event list \<Rightarrow> (fault + process \<times> notification list) option" where
  "library_lifetime e es0 es1 =
     (let p0 = device_manager_ctor e; monitor_fd = env_monitor_fd e
      in if \<not> proc_thread_running p0 then device_manager_dtor_join monitor_fd es1 p0
         else (case monitor_thread_wrapper monitor_fd (select_wakeups True es0) p0 of
                 Loop_fault f ns \<Rightarrow> Some (Inl f)
               | Loop_stopped m ns \<Rightarrow>
                   prepend_joined ns
                     (device_manager_dtor_join monitor_fd es1 (monitor_thread_exit monitor_fd (p0\<lparr>proc_manager := m\<rparr>)))
               | Loop_waiting m ns \<Rightarrow>
                   prepend_joined ns (device_manager_dtor_join monitor_fd es1 (p0\<lparr>proc_manager := m\<rparr>))))"

section \<open>Lemmas\<close>

lemma monitor_loop_slots:
  "loop_state (monitor_loop ws s) = Some s' \<Longrightarrow>
    m_monitor s' = m_monitor s \<and> m_monitor_thread s' = m_monitor_thread s \<and>
    m_control_pipe s' = m_control_pipe s"
proof (induction ws arbitrary: s)
  case Nil
  then show ?case by (simp split: if_splits)
next
  case (Cons w ws)
  show ?case
  proof (cases "m_enable_monitoring s")
    case True
    with Cons.prems obtain s1 ns where it: "monitor_iteration w s = Inr (s1, ns)"
      and "loop_state (monitor_loop ws s1) = Some s'"
      by (auto split: sum.splits)
    with Cons.IH [of s1] monitor_iteration_manager_slots [OF it] show ?thesis
      by (simp add: manager_slots_eq_def)
  next
    case False
    with Cons.prems show ?thesis by simp
  qed
qed

lemma monitor_thread_wrapper_slots:
  assumes "loop_state (monitor_thread_wrapper monitor_fd ws p) = Some m"
  shows "m_monitor m = m_monitor (proc_manager p) \<and>
    m_monitor_thread m = m_monitor_thread (proc_manager p) \<and>
    m_control_pipe m = m_control_pipe (proc_manager p)"
proof (cases "monitor_fd \<le> 0")
  case True
  with assms show ?thesis by (simp add: monitor_thread_wrapper_def monitor_for_changes_def)
next
  case False
  with assms show ?thesis
    by (intro monitor_loop_slots) (simp add: monitor_thread_wrapper_def monitor_for_changes_def)
qed

lemma monitor_loop_stopped:
  "monitor_loop ws s = Loop_stopped s' ns \<Longrightarrow> \<not> m_enable_monitoring s'"
proof (induction ws arbitrary: s ns)
  case Nil
  then show ?case by (simp split: if_splits)
next
  case (Cons w ws)
  show ?case
  proof (cases "m_enable_monitoring s")
    case True
    with Cons.prems obtain s1 ms where it: "monitor_iteration w s = Inr (s1, ms)"
      and r: "prepend_notifications ms (monitor_loop ws s1) = Loop_stopped s' ns"
      by (auto split: sum.splits)
    from r obtain ns' where "monitor_loop ws s1 = Loop_stopped s' ns'"
      by (cases "monitor_loop ws s1") auto
    then show ?thesis by (rule Cons.IH)
  next
    case False
    with Cons.prems show ?thesis by simp
  qed
qed

text \<open>Once the write end is closed, the first wake-up reads end of file or is an error.\<close>

lemma select_wakeups_closed:
  obtains w ws where "select_wakeups False es = w # ws"
    "0 < select_ret w \<and> control_ready w \<and> control_read w = 0 \<or> select_ret w < 0"
proof (cases es)
  case Nil
  then show ?thesis by (auto intro: that)
next
  case (Cons e es')
  then show ?thesis by (cases e) (auto intro: that)
qed

lemma monitor_resume_closed:
  "(\<exists>s' ns. monitor_resume (select_wakeups False es) s = Loop_stopped s' ns \<and>
      manager_slots_eq (s\<lparr>m_enable_monitoring := False\<rparr>) s') \<or>
   (\<exists>f. monitor_resume (select_wakeups False es) s = Loop_fault f [])"
proof -
  obtain w ws where ws: "select_wakeups False es = w # ws"
    and eof: "0 < select_ret w \<and> control_ready w \<and> control_read w = 0 \<or> select_ret w < 0"
    by (rule select_wakeups_closed)
  show ?thesis
  proof (cases "monitor_iteration w s")
    case (Inl f)
    with ws show ?thesis by (simp add: monitor_resume_def)
  next
    case (Inr r)
    then obtain s1 ns where it: "monitor_iteration w s = Inr (s1, ns)" by (cases r) auto
    from monitor_iteration_manager_slots [OF it] eof
    have "\<not> m_enable_monitoring s1" "manager_slots_eq (s\<lparr>m_enable_monitoring := False\<rparr>) s1"
      by (auto simp: manager_slots_eq_def)
    with ws it show ?thesis by (simp add: monitor_resume_def)
  qed
qed

lemma device_manager_dtor_records [simp]:
  "m_device_records (proc_manager (device_manager_dtor fd p)) = []"
  by (simp add: device_manager_dtor_def sys_close_def monitor_thread_exit_def Let_def
      reset_device_records_def split: prod.split)

lemma device_manager_dtor_join_no_thread:
  "m_monitor_thread (proc_manager p) = 0 \<Longrightarrow>
    device_manager_dtor_join fd es p = Some (Inr (device_manager_dtor fd p, []))"
  by (simp add: device_manager_dtor_join_def device_manager_dtor_def Let_def sys_close_def
      split: prod.split)

text \<open>
  The destructor with the monitor thread run to its end closes the same descriptors, in
  the same order, as the destructor of \<open>Lifecycle\<close>, which takes the thread's exit for
  granted, when the thread state agrees with \<open>m_monitor_thread\<close>; and it does return.
\<close>

lemma device_manager_dtor_join_io:
  assumes wfd: "snd (m_control_pipe (proc_manager p)) \<noteq> 0"
    and thread: "proc_thread_running p \<longleftrightarrow> 0 \<noteq> m_monitor_thread (proc_manager p)"
  shows "(\<exists>f. device_manager_dtor_join fd es p = Some (Inl f)) \<or>
    (\<exists>p' ns. device_manager_dtor_join fd es p = Some (Inr (p', ns)) \<and>
       proc_fds p' = proc_fds (device_manager_dtor fd p) \<and>
       proc_closes p' = proc_closes (device_manager_dtor fd p) \<and>
       proc_thread_running p' = proc_thread_running (device_manager_dtor fd p) \<and>
       m_device_records (proc_manager p') = [])"
proof -
  obtain rfd wfd where pipe: "m_control_pipe (proc_manager p) = (rfd, wfd)" by fastforce
  with wfd have w: "wfd \<noteq> 0" by simp
  let ?p2 = "sys_close wfd (p\<lparr>proc_manager := (proc_manager p)\<lparr>m_enable_monitoring := False\<rparr>\<rparr>)"
  have closed: "wfd \<notin> set (proc_fds ?p2)" by (simp add: sys_close_def)
  show ?thesis
  proof (cases "proc_thread_running p")
    case False
    with thread have "m_monitor_thread (proc_manager p) = 0" by simp
    then show ?thesis by (simp add: device_manager_dtor_join_no_thread)
  next
    case True
    with thread have t: "m_monitor_thread (proc_manager p) \<noteq> 0" by simp
    from monitor_resume_closed [of es "proc_manager ?p2"] show ?thesis
    proof
      assume "\<exists>s' ns. monitor_resume (select_wakeups False es) (proc_manager ?p2) = Loop_stopped s' ns \<and>
        manager_slots_eq ((proc_manager ?p2)\<lparr>m_enable_monitoring := False\<rparr>) s'"
      then obtain m ns where r: "monitor_resume (select_wakeups False es) (proc_manager ?p2) = Loop_stopped m ns"
        and sl: "manager_slots_eq ((proc_manager ?p2)\<lparr>m_enable_monitoring := False\<rparr>) m" by blast
      from sl have mon: "m_monitor m = m_monitor (proc_manager p)" by (simp add: manager_slots_eq_def sys_close_def)
      from r pipe w t True closed mon show ?thesis
        by (simp add: device_manager_dtor_join_def device_manager_dtor_def thread_join_def
            Let_def sys_close_def monitor_thread_exit_def)
    next
      assume "\<exists>f. monitor_resume (select_wakeups False es) (proc_manager ?p2) = Loop_fault f []"
      then obtain f where "monitor_resume (select_wakeups False es) (proc_manager ?p2) = Loop_fault f []" by blast
      with pipe w t True closed show ?thesis
        by (simp add: device_manager_dtor_join_def thread_join_def Let_def sys_close_def)
    qed
  qed
qed

text \<open>
  Whether or not it joins a thread, a destructor that returns has closed both pipe ends
  and the monitor's descriptor.
\<close>

lemma device_manager_dtor_join_closes:
  assumes pipe: "m_control_pipe (proc_manager p) = (rfd, wfd)" and nz: "rfd \<noteq> 0" "wfd \<noteq> 0"
    and mon: "m_monitor (proc_manager p) \<noteq> 0" and fds: "set (proc_fds p) \<subseteq> {fd, rfd, wfd}"
  shows "device_manager_dtor_join fd es p \<noteq> None \<and>
    (\<forall>p' ns. device_manager_dtor_join fd es p = Some (Inr (p', ns)) \<longrightarrow>
       proc_fds p' = [] \<and> m_device_records (proc_manager p') = [])"
proof -
  let ?p2 = "sys_close wfd (p\<lparr>proc_manager := (proc_manager p)\<lparr>m_enable_monitoring := False\<rparr>\<rparr>)"
  have closed: "wfd \<notin> set (proc_fds ?p2)" by (simp add: sys_close_def)
  have empty: "removeAll fd (removeAll rfd (removeAll wfd xs)) = []"
    "removeAll rfd (removeAll fd (removeAll wfd xs)) = []" if "set xs \<subseteq> {fd, rfd, wfd}" for xs
    using that by (induction xs) auto
  show ?thesis
  proof (cases "0 \<noteq> m_monitor_thread (proc_manager p) \<and> proc_thread_running p")
    case False
    with pipe nz mon empty [OF fds] show ?thesis
      by (auto simp: device_manager_dtor_join_def Let_def sys_close_def)
  next
    case True
    from monitor_resume_closed [of es "proc_manager ?p2"] show ?thesis
    proof
      assume "\<exists>s' ns. monitor_resume (select_wakeups False es) (proc_manager ?p2) = Loop_stopped s' ns \<and>
        manager_slots_eq ((proc_manager ?p2)\<lparr>m_enable_monitoring := False\<rparr>) s'"
      then obtain m ns where r: "monitor_resume (select_wakeups False es) (proc_manager ?p2) = Loop_stopped m ns"
        and sl: "manager_slots_eq ((proc_manager ?p2)\<lparr>m_enable_monitoring := False\<rparr>) m" by blast
      from sl have "m_monitor m = m_monitor (proc_manager p)" by (simp add: manager_slots_eq_def sys_close_def)
      with r pipe nz mon True closed empty [OF fds] show ?thesis
        by (auto simp: device_manager_dtor_join_def thread_join_def Let_def sys_close_def
            monitor_thread_exit_def removeAll_id)
    next
      assume "\<exists>f. monitor_resume (select_wakeups False es) (proc_manager ?p2) = Loop_fault f []"
      with pipe nz True closed show ?thesis
        by (auto simp: device_manager_dtor_join_def thread_join_def Let_def sys_close_def)
    qed
  qed
qed

lemma prepend_joined_eq [simp]:
  "prepend_joined ns r = None \<longleftrightarrow> r = None"
  "prepend_joined ns r = Some (Inr (p, ms)) \<longleftrightarrow> (\<exists>ms'. r = Some (Inr (p, ms')) \<and> ms = ns @ ms')"
  by (cases "(ns, r)" rule: prepend_joined.cases; auto)+

text \<open>
  C39. The destructor always returns: whatever udev events and \<open>select\<close> failures the
  monitor thread meets before and after the destructor starts, closing the write end of
  the control pipe wakes the thread, which leaves its loop within one pass, so
  \<open>pthread_join\<close> returns; and when no pass faults, every descriptor the constructor
  opened is closed and the registry is empty.
\<close>

theorem library_lifetime_joins:
  assumes "pipe_fds_ok e"
  shows "library_lifetime e es0 es1 \<noteq> None \<and>
    (\<forall>p ns. library_lifetime e es0 es1 = Some (Inr (p, ns)) \<longrightarrow>
       proc_fds p = [] \<and> m_device_records (proc_manager p) = [])"
proof (cases "proc_thread_running (device_manager_ctor e)")
  case False
  then have "library_lifetime e es0 es1 =
      Some (Inr (device_manager_dtor (env_monitor_fd e) (device_manager_ctor e), []))"
    by (simp add: library_lifetime_def device_manager_ctor_not_running device_manager_dtor_join_no_thread)
  with device_manager_dtor_ctor_fds [OF assms] show ?thesis by simp
next
  case True
  let ?p0 = "device_manager_ctor e" and ?fd = "env_monitor_fd e"
  obtain rfd wfd where pipe: "env_pipe e = Some (rfd, wfd)"
    and c: "m_control_pipe (proc_manager ?p0) = (rfd, wfd)" "proc_fds ?p0 = [?fd, rfd, wfd]"
      "m_monitor (proc_manager ?p0) = 1" "m_monitor_thread (proc_manager ?p0) = 1"
    using True by (rule device_manager_ctor_running)
  from assms pipe have nz: "rfd \<noteq> 0" "wfd \<noteq> 0" by (simp_all add: pipe_fds_ok_def)
  show ?thesis
  proof (cases "monitor_thread_wrapper ?fd (select_wakeups True es0) ?p0")
    case (Loop_fault f ns)
    with True show ?thesis by (simp add: library_lifetime_def)
  next
    case (Loop_stopped m ns)
    let ?q = "monitor_thread_exit ?fd (?p0\<lparr>proc_manager := m\<rparr>)"
    from Loop_stopped monitor_thread_wrapper_slots [of ?fd "select_wakeups True es0" ?p0 m] c
    have "m_control_pipe (proc_manager ?q) = (rfd, wfd)" "m_monitor (proc_manager ?q) \<noteq> 0"
      "set (proc_fds ?q) \<subseteq> {?fd, rfd, wfd}"
      by (auto simp: monitor_thread_exit_def sys_close_def)
    from device_manager_dtor_join_closes [OF this(1) nz this(2,3), of es1] Loop_stopped True
    show ?thesis by (auto simp: library_lifetime_def Let_def)
  next
    case (Loop_waiting m ns)
    let ?q = "?p0\<lparr>proc_manager := m\<rparr>"
    from Loop_waiting monitor_thread_wrapper_slots [of ?fd "select_wakeups True es0" ?p0 m] c
    have "m_control_pipe (proc_manager ?q) = (rfd, wfd)" "m_monitor (proc_manager ?q) \<noteq> 0"
      "set (proc_fds ?q) \<subseteq> {?fd, rfd, wfd}"
      by auto
    from device_manager_dtor_join_closes [OF this(1) nz this(2,3), of es1] Loop_waiting True
    show ?thesis by (auto simp: library_lifetime_def Let_def)
  qed
qed

theorem library_lifetime_joins_witness:
  "pipe_fds_ok ex_ctor_env \<and>
   (\<exists>p. library_lifetime ex_ctor_env [Udev_ready None] [] = Some (Inr (p, [])) \<and> proc_fds p = [])"
proof -
  have ok: "pipe_fds_ok ex_ctor_env" by (simp add: pipe_fds_ok_def ex_ctor_env_def)
  have "\<exists>p. library_lifetime ex_ctor_env [Udev_ready None] [] = Some (Inr (p, []))"
    by (simp add: library_lifetime_def ex_ctor_env_def device_manager_ctor_def static_manager_def
        monitor_thread_wrapper_def monitor_for_changes_def monitor_iteration_def
        process_udev_monitor_event_def device_manager_dtor_join_def sys_close_def thread_join_def
        monitor_resume_def process_control_event_def monitor_thread_exit_def Let_def)
  with library_lifetime_joins [OF ok, of "[Udev_ready None]" "[]"] ok show ?thesis by blast
qed

text \<open>
  C14. While the write end of the control pipe is open, the monitor thread leaves its loop
  only through a failure of \<open>select\<close> or a fault: \<open>select\<close> has no timeout, so the
  \<open>0 == ret\<close> branch is never taken, and the pipe is never readable before the
  destructor closes it.
\<close>

theorem monitor_loop_open_pipe:
  assumes "Select_error \<notin> set es" and "m_enable_monitoring s"
  shows "(\<exists>s' ns. monitor_loop (select_wakeups True es) s = Loop_waiting s' ns \<and> m_enable_monitoring s') \<or>
    (\<exists>f ns. monitor_loop (select_wakeups True es) s = Loop_fault f ns)"
  using assms
proof (induction es arbitrary: s)
  case Nil
  then show ?case by simp
next
  case (Cons e es)
  then obtain found where e: "e = Udev_ready found" by (cases e) auto
  let ?w = "\<lparr>select_ret = 1, control_ready = False, monitor_ready = True, control_read = 0,
             received = found\<rparr>"
  show ?case
  proof (cases "monitor_iteration ?w s")
    case (Inl f)
    with Cons.prems e show ?thesis by simp
  next
    case (Inr r)
    then obtain s1 ms where it: "monitor_iteration ?w s = Inr (s1, ms)" by (cases r) auto
    with monitor_iteration_manager_slots [OF it] Cons.prems have "m_enable_monitoring s1" by simp
    with Cons.IH [of s1] Cons.prems have "(\<exists>s' ns. monitor_loop (select_wakeups True es) s1 = Loop_waiting s' ns \<and> m_enable_monitoring s') \<or>
        (\<exists>f ns. monitor_loop (select_wakeups True es) s1 = Loop_fault f ns)" by simp
    with it e Cons.prems show ?thesis by auto
  qed
qed

theorem monitor_loop_open_pipe_witness:
  "Select_error \<notin> set [Udev_ready None, Udev_ready None] \<and>
   m_enable_monitoring (ex_manager registry_initial None) \<and>
   (\<exists>s' ns. monitor_loop (select_wakeups True [Udev_ready None, Udev_ready None])
       (ex_manager registry_initial None) = Loop_waiting s' ns \<and> m_enable_monitoring s')"
proof -
  have h: "Select_error \<notin> set [Udev_ready None, Udev_ready None]"
    "m_enable_monitoring (ex_manager registry_initial None)"
    by (simp_all add: ex_manager_def)
  have nf: "\<not> (\<exists>f ns. monitor_loop (select_wakeups True [Udev_ready None, Udev_ready None])
       (ex_manager registry_initial None) = Loop_fault f ns)"
    by (simp add: monitor_iteration_def process_udev_monitor_event_def ex_manager_def)
  from monitor_loop_open_pipe [OF h] nf h show ?thesis by blast
qed

end
