(* ===== verification/Spec2Isabelle.thy ===== *)
theory Spec2Isabelle
  imports Races DumpRace Shutdown
begin

text \<open>
  \<^bold>\<open>A verification model of libusbctrl's device manager.\<close>

  The library (\<open>src/src/usbctrl.cpp\<close>) is one C++ class, \<open>device_manager\<close>, with a
  single static instance behind four C entry points (\<open>rusbCtrl_init\<close>,
  \<open>rusbCtrl_term\<close>, \<open>rusbCtrl_registerCallback\<close>, \<open>rusbCtrl_getProperty\<close>, lines
  539--558). It keeps a registry of attached USB devices (\<open>m_device_records\<close>, a list of
  \<open>device_record\<close>s, each owning one reference to a libudev device object), an identifier
  counter, one callback slot, and a monitor thread that waits with \<open>select\<close> on a
  control pipe and a udev netlink monitor, applies "add" and "remove" events to the
  registry under \<open>m_mutex\<close>, and then notifies the callback outside the lock.
  \<open>src/src/usbtest.cpp\<close> is an interactive test application: a menu loop reading
  commands from \<open>std::cin\<close> and a callback that keeps a list of connected identifiers.

  \<^bold>\<open>Theories and what they model.\<close>
  \<^item> \<open>Prelude\<close>: \<open>c_int\<close> (\<open>int\<close> as \<open>32 word\<close>, read with \<open>sint\<close>), handles, C strings;
    \<open>c_strncmp_eq\<close> (\<open>strncmp(a, b, n) == 0\<close>) and the lemma that
    \<open>strncmp(x, y, strlen(x))\<close> is a prefix test; \<open>c_strncpy\<close> and \<open>c_buffer\<close> for
    \<open>malloc\<close>+\<open>strncpy\<close> buffers; the 32-bit increment below and at \<open>INT_MAX\<close>;
    \<open>erase_at\<close> for \<open>std::list::erase\<close>; the \<open>fault\<close> values (NULL dereference, use
    after free, NULL function call, buffer over-read, invalid \<open>free\<close>).
  \<^item> \<open>Udev\<close>: libudev, not in the repository, modelled from spec section 6 as an
    explicit heap of device objects with the program's reference counts
    (\<open>udev_device_new\<close>, \<open>udev_device_unref\<close>, the attribute readers).
  \<^item> \<open>Registry\<close>: \<open>device_record\<close> and \<open>registry\<close> (the records, the counter, the heap);
    \<open>get_new_identifier\<close>, \<open>add_device_to_records\<close>, \<open>remove_device_from_records\<close> with its
    search loop \<open>find_devnode_record\<close>, \<open>reset_device_records\<close>,
    \<open>get_connected_devices_list\<close> (whose \<open>size_t\<close> count is stored into an \<open>int\<close>,
    modulo \<open>2^32\<close>), the enumeration body \<open>enumerate_add_device\<close>. The
    invariant \<open>registry_inv P\<close> is \<open>ids_ok\<close> (identifiers positive, strictly increasing,
    at most the counter) and \<open>heap_ok P\<close> (each record's device live with exactly one
    reference, the handles \<open>P\<close> a caller holds unstored live and owned by it, nothing else
    referenced, a sound allocator). \<open>registry_abs\<close> maps identifiers to records.
  \<^item> \<open>Dispatcher\<close>: the whole \<open>device_manager\<close> state as an extension of \<open>registry\<close> and
    the notification \<open>dispatch_callback\<close> sends.
  \<^item> \<open>Monitor\<close>: \<open>process_udev_monitor_event\<close>, \<open>process_control_event\<close>, one pass of the
    loop of \<open>monitor_for_changes\<close> (\<open>monitor_iteration\<close>) and the loop over the wake-ups
    \<open>select\<close> delivers (\<open>monitor_loop\<close>, \<open>monitor_for_changes\<close>).
  \<^item> \<open>Property\<close>: \<open>get_property\<close> (search \<open>find_record_device\<close>, copy \<open>copy_property\<close>).
  \<^item> \<open>Facade\<close>: \<open>enumerate_connected_devices\<close>, \<open>init\<close>, \<open>term\<close> (\<open>term_manager\<close>),
    \<open>register_callback\<close>.
  \<^item> \<open>Concurrency\<close>: the monitor thread's event handling in stages (locked section
    \<open>monitor_event_locked\<close>, release, callback test, callback call) interleaved with the
    application's calls; \<open>get_property\<close>'s unlocked search one iterator step at a time
    over the record nodes (\<open>first_record\<close>, \<open>record_after\<close>, \<open>record_at\<close>, a node being
    named by the device handle it owns) and its unlocked read (\<open>conc_step\<close>); the
    reachable states \<open>conc_reach\<close> (an inductive relation) and schedules \<open>conc_run\<close>.
  \<^item> \<open>Races\<close>: the races of the two threads, each for every state satisfying the memory
    invariant, and an example state with two devices (\<open>ex_conc_two\<close>).
  \<^item> \<open>Lifecycle\<close>: the zero-initialised static instance (\<open>static_manager\<close>), the
    constructor \<open>device_manager_ctor\<close> with the outcome of each set-up call as input
    (\<open>ctor_env\<close>), the monitor thread's exit and the destructor \<open>device_manager_dtor\<close>,
    over a table of open descriptors with a log of \<open>close\<close> calls (\<open>sys_close\<close>).
  \<^item> \<open>Shutdown\<close>: the control pipe and the shutdown handshake. \<open>select_wakeups\<close> gives
    the wake-ups \<open>select\<close> and \<open>read\<close> produce on the pipe (readable only once its write
    end is closed, since nothing writes to it) for the udev events and \<open>select\<close>
    failures the environment chooses; \<open>monitor_thread_wrapper\<close>; a thread blocked in
    \<open>select\<close> resuming its pass (\<open>monitor_resume\<close>); \<open>pthread_join\<close>
    (\<open>thread_join\<close>, \<open>None\<close> while the thread stays blocked); the destructor with the
    thread run to its end (\<open>device_manager_dtor_join\<close>) and the library's whole life in a
    process (\<open>library_lifetime\<close>).
  \<^item> \<open>DumpRace\<close>: \<open>connected_device_ids\<close> of the test application as \<open>std::list\<close> nodes
    with addresses (\<open>id_list\<close>, \<open>id_push_back\<close>, \<open>id_remove\<close>), the loop of
    \<open>dump_connected_devices\<close> one iterator step at a time (\<open>dump_step\<close>, \<open>dump_run\<close>),
    and the monitor thread's removal callback between two of its steps.
  \<^item> \<open>Stdin\<close>: the part of \<open>std::istream\<close> the test application uses, on the unread
    characters: \<open>read_int\<close> (\<open>operator>>(int&)\<close> with its range check), \<open>read_word\<close>
    (\<open>operator>>(std::string&)\<close>), \<open>istream_ignore\<close>; and decimal printing for scripts.
  \<^item> \<open>Harness\<close>: \<open>usbtest.cpp\<close>: its globals (\<open>harness\<close>), \<open>callback\<close>, one pass of the
    menu loop \<open>launcher_iteration\<close>, the loop \<open>launcher_loop\<close> with fuel, \<open>main\<close>
    (\<open>usbtest_main\<close>), the text of \<open>print_menu\<close> and \<open>dump_connected_devices\<close>; printing is
    modelled where it is undefined (\<open>cout_c_string\<close>); \<open>harness_wakeup\<close> composes a
    monitor wake-up of the library with the callbacks it makes into the application.
  \<^item> This theory: the public interface as one step function \<open>api_step\<close> over calls and
    monitor wake-ups, its runs \<open>api_run\<close>, and the properties of whole runs.

  \<^bold>\<open>What is proved.\<close> Per operation: functional behaviour on every branch and the
  error branches (C1--C7, C9, C10, C12, C13, C15--C20); the \<open>size_t\<close> to \<open>int\<close>
  narrowing of the list size is exact on every registry satisfying \<open>ids_ok\<close> (C21,
  type); preservation of \<open>registry_inv\<close> by each operation, event, loop pass, the monitor
  loop (C11) and any run of the interface (C22); refinement of the record list by
  \<open>registry_abs\<close> (C2, C3, C9); that identifiers handed to the callback are fresh and
  increasing across a run (C23); that a run faults only on NULL strings from udev (C24,
  with the invariant \<open>nodes_ok\<close>). For the threads: while the control pipe's write end
  is open the monitor loop stops only on a \<open>select\<close> failure or a fault (C14);
  \<open>heap_ok\<close> holds in every reachable interleaving (C25, rule induction on
  \<open>conc_reach\<close>); the only faults of an interleaving are the races and NULL strings
  (C26); and each race happens from every state satisfying the invariant where its
  trigger is possible: a "remove" while \<open>get_property\<close>'s iterator stands on the record
  it deletes (C8) or after the search found it (C27), \<open>term\<close> between the monitor's
  callback test and its call (C28), \<open>register_callback\<close> between the monitor's locked
  section and its notification (C29). Defects found: prefix matching on remove (C5),
  identifier roll-over (C7), the unterminated property buffer (C10), \<open>init\<close> masking
  failure (C18), the races C8 and C27--C29, and the constructor leaving
  \<open>m_enable_monitoring\<close> set where no monitor exists (C30, which also shows that
  \<open>m_monitor_thread\<close> is non-zero exactly when the thread runs). An event with another
  action is ignored and its reference released (C16). For the test application: the
  menu loop never returns at end of input (C31) and returns on every well-formed script
  ending in 9 (C32); option 4 reads back exactly the number typed, within the range of
  \<open>int\<close> (C33); every connection notification makes the callback print NULL or an
  unterminated buffer (C34); option 3 frees an unset pointer on an empty registry (C35);
  option 1 leaves stale identifiers (C36); its list follows the registry across "remove"
  events (C37); a removal reported by the monitor thread while
  \<open>dump_connected_devices\<close> runs makes it dereference a freed list node (C40). For
  construction and destruction: the monitor's descriptor is closed twice (C38); whatever
  events the monitor thread meets, the destructor returns (closing the write end wakes
  the thread, which leaves its loop within one pass, so \<open>pthread_join\<close> returns) and
  no descriptor leaks, provided \<open>pipe\<close> did not return descriptor 0 (C39). Further
  theorems, not in the list of properties: an identifier absent from the registry yields
  NULL (\<open>get_property_unknown_identifier\<close>), a pass that finds both descriptors ready
  serves the control pipe first and still applies the udev event
  (\<open>monitor_iteration_control_then_event\<close>), and the stepwise loop of
  \<open>dump_connected_devices\<close> without interference prints what the reference definition
  does (\<open>dump_run_equiv\<close>).

  \<^bold>\<open>Bounds.\<close> The counter is a 32-bit \<open>int\<close>; invariant lemmas that add devices
  assume room below \<open>INT_MAX\<close> for every device the run can add (\<open>api_room\<close>: one per
  opened device of an enumeration, one per wake-up), which is exactly the condition under
  which the increments do not overflow; C7 shows what happens without it. The monitor
  loop runs over a finite list of wake-ups supplied by the environment, so it is
  structurally recursive and needs no fuel. In the interleaving model every thread's
  step is one equation of \<open>conc_step\<close>, and the races are stated for explicit schedules
  whose length is the iterator's position plus a constant. After the destructor closes the write end, one wake-up of
  \<open>select\<close> is enough (C39): \<open>select_wakeups\<close> delivers it even with no udev event. The test application's menu loop
  may run forever (C31), so it takes fuel; one pass per command plus one is enough for a
  well-formed script (C32). \<open>ignore(10000, '\n')\<close> is modelled with its bound, which is
  why C33 needs a line shorter than 10000 characters.

  \<^bold>\<open>Not modelled.\<close> The udev events and the failures of \<open>select\<close> are inputs
  (\<open>select_event\<close>), and libudev itself is modelled from the specification, not from
  code (\<open>Udev\<close>). The constant \<open>MONITOR_TIMEOUT_USECS\<close> is never used (\<open>select\<close>
  gets no timeout) and \<open>supported_property_list\<close> is never read;
  \<open>print_device_properties\<close> only logs (its attribute dump is compiled out). The logging
  macros and the mutex attribute calls only report. The output of the menu loop is not
  collected: what \<open>print_menu\<close> and \<open>dump_connected_devices\<close> write is defined, but
  \<open>launcher_iteration\<close> returns no output. Of the stream state only \<open>failbit\<close> is
  modelled. The return value of \<open>monitor_thread_wrapper\<close> is not modelled: the function
  has no return statement, and the thread's end is its exit. There are no data races
  inside a critical section, because the mutex makes each critical section one step. The
  application's callbacks run between two passes of its menu loop
  (\<open>harness_wakeup\<close>); the exception is the loop of \<open>dump_connected_devices\<close>, which
  \<open>DumpRace\<close> interleaves with a removal. Allocation always succeeds: \<open>malloc\<close>
  returning NULL in \<open>get_property\<close> and \<open>get_connected_devices_list\<close> is not modelled.
  The increment of the identifier counter at \<open>INT_MAX\<close> is undefined behaviour in C++;
  the model takes the two's complement wrap-around the compiled code performs (C7), so
  that theorem describes the usual build, not every conforming compiler. The callback's
  first line (\<open>usbtest.cpp\<close> line 28) prints the payload string, the \<open>c_str()\<close> of
  \<open>callback_payload\<close>; since the application's output is not collected, that print is
  not modelled.
\<close>

section \<open>The public interface as one step function\<close>

text \<open>
  A call of the library, as the C entry points (lines 539--558) forward it to the static
  instance, or one wake-up of the monitor thread while \<open>m_enable_monitoring\<close> is set.
\<close>

datatype api_call =
    Api_init enumeration
  | Api_term
  | Api_register_callback "callback option" payload bool
  | Api_get_property c_int cstring
  | Monitor_wakeup wakeup

datatype api_output =
    Out_result rusbCtrl_result
  | Out_register rusbCtrl_result "(c_int \<times> c_int list option) option"
  | Out_property "c_buffer option"
  | Out_notifications "notification list"

definition api_step :: "api_call \<Rightarrow> device_manager \<Rightarrow> fault + api_output \<times> device_manager" where
  "api_step c s =
     (case c of
        Api_init e \<Rightarrow> (let (r, s') = init e s in Inr (Out_result r, s'))
      | Api_term \<Rightarrow> (let (r, s') = term_manager s in Inr (Out_result r, s'))
      | Api_register_callback cb d want \<Rightarrow>
          (let ((r, l), s') = register_callback cb d want s in Inr (Out_register r l, s'))
      | Api_get_property i k \<Rightarrow> Inr (Out_property (get_property i k s), s)
      | Monitor_wakeup w \<Rightarrow>
          (if m_enable_monitoring s then
             (case monitor_iteration w s of
                Inl f \<Rightarrow> Inl f
              | Inr (s', ns) \<Rightarrow> Inr (Out_notifications ns, s'))
           else Inr (Out_notifications [], s)))"

fun api_run :: "api_call list \<Rightarrow> device_manager \<Rightarrow> fault + api_output list \<times> device_manager" where
  "api_run [] s = Inr ([], s)"
| "api_run (c # cs) s =
     (case api_step c s of
        Inl f \<Rightarrow> Inl f
      | Inr (out, s1) \<Rightarrow>
          (case api_run cs s1 of
             Inl f \<Rightarrow> Inl f
           | Inr (outs, s') \<Rightarrow> Inr (out # outs, s')))"

text \<open>
  The identifiers a call can take from the counter: one per opened device of an
  enumeration, one per wake-up (an "add" event), none otherwise.
\<close>

fun api_room :: "api_call \<Rightarrow> nat" where
  "api_room (Api_init (Scanned found)) = length found"
| "api_room (Monitor_wakeup w) = 1"
| "api_room c = 0"

text \<open>The identifiers the callback receives with \<open>connected = 1\<close>, in order.\<close>

fun connected_ids :: "notification list \<Rightarrow> c_int list" where
  "connected_ids [] = []"
| "connected_ids (Notify cb i c d # ns) = (if c = 1 then i # connected_ids ns else connected_ids ns)"

fun output_connected_ids :: "api_output list \<Rightarrow> c_int list" where
  "output_connected_ids [] = []"
| "output_connected_ids (Out_notifications ns # outs) = connected_ids ns @ output_connected_ids outs"
| "output_connected_ids (out # outs) = output_connected_ids outs"

text \<open>
  The environment's side of a run that cannot fault: each record has a node path, and
  each device object an enumeration opens or the monitor receives has a node path (and,
  when received, an action), so that no \<open>strncmp\<close> meets a NULL string.
\<close>

definition nodes_ok :: "'a registry_scheme \<Rightarrow> bool" where
  "nodes_ok s \<longleftrightarrow> (\<forall>r\<in>set (m_device_records s). m_devnode r \<noteq> None)"


text \<open>The example session of the scenario claims.\<close>

definition ex_start :: device_manager where
  "ex_start = ex_manager registry_initial (Some 100)"

definition ex_session :: "api_call list" where
  "ex_session =
     [Api_init (Scanned [Some (ex_usb_device ex_node_short), None, Some (ex_usb_device ex_node_other)]),
      Monitor_wakeup (ex_wakeup (Some (ex_remove_device ex_node_short))),
      Api_get_property 2 ''idVendor'',
      Monitor_wakeup (ex_wakeup (Some (ex_usb_device ex_node_long))),
      Api_register_callback (Some 200) 9 True,
      Monitor_wakeup (ex_wakeup (Some (ex_usb_device ex_node_short))),
      Api_term]"

section \<open>Lemmas on runs of the interface\<close>

lemma connected_ids_dispatch:
  "connected_ids (dispatch_callback r i c s) = (if r \<and> c = 1 \<and> m_callback s \<noteq> None then [i] else [])"
  by (auto simp: dispatch_callback_def split: option.split)

lemma process_udev_monitor_event_connected:
  assumes "process_udev_monitor_event found s = Inr (s', ns)"
  shows "(connected_ids ns = [] \<and> m_last_used_identifier s' = m_last_used_identifier s) \<or>
         (connected_ids ns = [m_last_used_identifier s + 1] \<and>
          m_last_used_identifier s' = m_last_used_identifier s + 1) \<or>
         (connected_ids ns = [] \<and> m_last_used_identifier s' = m_last_used_identifier s + 1)"
proof (cases found)
  case None
  with assms show ?thesis by (simp add: process_udev_monitor_event_def)
next
  case (Some d)
  obtain h u where new: "udev_device_new d (udev s) = (h, u)" by fastforce
  from assms Some have ev: "process_udev_monitor_event (Some d) s = Inr (s', ns)" by simp
  show ?thesis using ev new
  proof (cases rule: process_udev_monitor_event_cases)
    case add
    then show ?thesis by (simp add: connected_ids_dispatch add_device_to_records_eq)
  next
    case (remove action result ident s2)
    from remove_device_from_records_cases [OF remove(4)] remove(5,6) show ?thesis
      by (auto simp: connected_ids_dispatch)
  next
    case other
    then show ?thesis by simp
  qed
qed

lemma monitor_iteration_connected:
  assumes "monitor_iteration w s = Inr (s', ns)"
  shows "(connected_ids ns = [] \<and> m_last_used_identifier s' = m_last_used_identifier s) \<or>
         (connected_ids ns = [m_last_used_identifier s + 1] \<and>
          m_last_used_identifier s' = m_last_used_identifier s + 1) \<or>
         (connected_ids ns = [] \<and> m_last_used_identifier s' = m_last_used_identifier s + 1)"
proof (cases "0 < select_ret w \<and> monitor_ready w")
  case True
  let ?s1 = "if control_ready w then process_control_event (control_read w) s else s"
  from True assms have "process_udev_monitor_event (received w) ?s1 = Inr (s', ns)"
    by (simp add: monitor_iteration_def Let_def)
  from process_udev_monitor_event_connected [OF this] show ?thesis
    by (cases "control_ready w") simp_all
next
  case False
  with assms show ?thesis by (auto simp: monitor_iteration_def Let_def split: if_splits)
qed

lemma reset_device_records_counter [simp]:
  "m_last_used_identifier (reset_device_records s) = m_last_used_identifier s"
  by (simp add: reset_device_records_def)

lemma length_map_filter_le: "length (List.map_filter f xs) \<le> length xs"
  by (induction xs) (auto simp: map_filter_simps split: option.split)

lemma ids_ok_counter_nonneg: "registry_inv P s \<Longrightarrow> 0 \<le> sint (m_last_used_identifier s)"
  by (simp add: registry_inv_def ids_ok_def)

lemma init_counter:
  assumes inv: "registry_inv {} s"
    and room: "sint (m_last_used_identifier s) + int (api_room (Api_init e)) < INT_MAX"
    and st: "init e s = (r, s')"
  shows "registry_inv {} s' \<and> sint (m_last_used_identifier s) \<le> sint (m_last_used_identifier s') \<and>
    sint (m_last_used_identifier s') \<le> sint (m_last_used_identifier s) + int (api_room (Api_init e))"
proof -
  have inv1: "registry_inv {} (reset_device_records s)" using inv by (rule registry_inv_reset)
  show ?thesis
  proof (cases e)
    case (Scanned found)
    let ?k = "length (List.map_filter (\<lambda>d. d) found)"
    have s': "s' = fold enumerate_add_device found (reset_device_records s)"
      using st Scanned by (simp add: init_def enumerate_connected_devices_def Let_def)
    have le: "?k \<le> length found" by (rule length_map_filter_le)
    have room': "sint (m_last_used_identifier (reset_device_records s)) + int (length found) < INT_MAX"
      using room Scanned by simp
    have "m_last_used_identifier s' = m_last_used_identifier s + of_nat ?k"
      unfolding s' using fold_enumerate_add_device [of found "reset_device_records s"] by simp
    moreover have "sint (m_last_used_identifier s + of_nat ?k) = sint (m_last_used_identifier s) + int ?k"
      using room Scanned le ids_ok_counter_nonneg [OF inv] by (intro sint_add_of_nat) simp_all
    ultimately show ?thesis
      using registry_inv_fold_enumerate [OF inv1 room'] s' le Scanned by simp
  qed (use st inv1 in \<open>auto simp: init_def enumerate_connected_devices_def Let_def\<close>)
qed

lemma monitor_wakeup_counter:
  assumes inv: "registry_inv {} s" and room: "sint (m_last_used_identifier s) < INT_MAX"
    and it: "monitor_iteration w s = Inr (s', ns)"
  shows "registry_inv {} s' \<and> sint (m_last_used_identifier s) \<le> sint (m_last_used_identifier s') \<and>
    sint (m_last_used_identifier s') \<le> sint (m_last_used_identifier s) + 1 \<and>
    sorted_wrt (<) (map sint (connected_ids ns)) \<and>
    (\<forall>i\<in>set (connected_ids ns). sint (m_last_used_identifier s) < sint i \<and>
       sint i \<le> sint (m_last_used_identifier s'))"
proof -
  have inc: "sint (m_last_used_identifier s + 1) = sint (m_last_used_identifier s) + 1"
    using room by (rule sint_incr)
  from monitor_iteration_inv [OF inv room it] have "registry_inv {} s'" by simp
  with monitor_iteration_connected [OF it] inc show ?thesis by auto
qed

lemma api_step_counter:
  assumes inv: "registry_inv {} s"
    and room: "sint (m_last_used_identifier s) + int (api_room c) < INT_MAX"
    and st: "api_step c s = Inr (out, s')"
  shows "registry_inv {} s' \<and> sint (m_last_used_identifier s) \<le> sint (m_last_used_identifier s') \<and>
    sint (m_last_used_identifier s') \<le> sint (m_last_used_identifier s) + int (api_room c) \<and>
    sorted_wrt (<) (map sint (output_connected_ids [out])) \<and>
    (\<forall>i\<in>set (output_connected_ids [out]). sint (m_last_used_identifier s) < sint i \<and>
       sint i \<le> sint (m_last_used_identifier s'))"
proof (cases c)
  case (Api_init e)
  obtain r s1 where i: "init e s = (r, s1)" by fastforce
  with st Api_init have "s' = s1" "out = Out_result r" by (auto simp: api_step_def)
  with init_counter [OF inv _ i] room Api_init show ?thesis by simp
next
  case Api_term
  with st inv show ?thesis
    by (auto simp: api_step_def term_manager_def intro: registry_inv_reset)
next
  case (Api_register_callback cb d want)
  with st inv show ?thesis by (auto simp: api_step_def register_callback_def Let_def)
next
  case (Api_get_property i k)
  with st inv show ?thesis by (auto simp: api_step_def)
next
  case (Monitor_wakeup w)
  show ?thesis
  proof (cases "m_enable_monitoring s")
    case True
    then obtain s2 ns where it: "monitor_iteration w s = Inr (s2, ns)" and
        eq: "s' = s2" "out = Out_notifications ns"
      using st Monitor_wakeup by (auto simp: api_step_def split: sum.splits)
    from room Monitor_wakeup have "sint (m_last_used_identifier s) < INT_MAX" by simp
    from monitor_wakeup_counter [OF inv this it] eq Monitor_wakeup show ?thesis by simp
  next
    case False
    with st inv Monitor_wakeup show ?thesis by (auto simp: api_step_def)
  qed
qed

lemma output_connected_ids_Cons:
  "output_connected_ids (out # outs) = output_connected_ids [out] @ output_connected_ids outs"
  by (cases out) simp_all

lemma api_run_counter:
  assumes "registry_inv {} s"
    and "sint (m_last_used_identifier s) + int (sum_list (map api_room cs)) < INT_MAX"
    and "api_run cs s = Inr (outs, s')"
  shows "registry_inv {} s' \<and> sint (m_last_used_identifier s) \<le> sint (m_last_used_identifier s') \<and>
    sorted_wrt (<) (map sint (output_connected_ids outs)) \<and>
    (\<forall>i\<in>set (output_connected_ids outs). sint (m_last_used_identifier s) < sint i \<and>
       sint i \<le> sint (m_last_used_identifier s'))"
  using assms
proof (induction cs arbitrary: s outs)
  case Nil
  then show ?case by auto
next
  case (Cons c cs)
  from Cons.prems(3) obtain out s1 outs' where
    st: "api_step c s = Inr (out, s1)" and run: "api_run cs s1 = Inr (outs', s')" and
    outs: "outs = out # outs'"
    by (auto split: sum.splits)
  from Cons.prems(2) have room1: "sint (m_last_used_identifier s) + int (api_room c) < INT_MAX" by simp
  note step = api_step_counter [OF Cons.prems(1) room1 st]
  with Cons.prems(2) have "sint (m_last_used_identifier s1) + int (sum_list (map api_room cs)) < INT_MAX"
    by simp
  with step have ih: "registry_inv {} s' \<and> sint (m_last_used_identifier s1) \<le> sint (m_last_used_identifier s') \<and>
    sorted_wrt (<) (map sint (output_connected_ids outs')) \<and>
    (\<forall>i\<in>set (output_connected_ids outs'). sint (m_last_used_identifier s1) < sint i \<and>
       sint i \<le> sint (m_last_used_identifier s'))"
    using Cons.IH [OF _ _ run] by blast
  show ?case
    unfolding outs output_connected_ids_Cons [of out outs']
    using step ih by (fastforce simp: sorted_wrt_append)
qed




lemma nodes_ok_records [simp]: "nodes_ok (s\<lparr>m_device_records := []\<rparr>)"
  by (simp add: nodes_ok_def)



lemmas ex_session_simps =
  ex_session_def ex_start_def api_step_def ex_manager_def registry_initial_def
  udev_heap_empty_def init_def enumerate_connected_devices_def reset_device_records_def
  enumerate_add_device_def udev_device_new_def add_device_to_records_eq
  ex_usb_device_def ex_node_short_def ex_node_other_def ex_node_long_def ex_remove_device_def
  ex_wakeup_def monitor_iteration_def process_udev_monitor_event_def
  remove_device_from_records_def udev_device_get_devnode_def udev_device_get_action_def
  UDEV_ADD_EVENT_def UDEV_REMOVE_EVENT_def c_strncmp_eq_def dispatch_callback_def
  device_record_destroy_def udev_device_unref_def get_property_def copy_property_def
  udev_device_get_sysattr_value_def
  register_callback_def get_connected_devices_list_def term_manager_def Let_def c_strncpy_def

lemma ex_session_returns: "\<exists>outs s'. api_run ex_session ex_start = Inr (outs, s')"
  by (simp add: ex_session_simps)

lemma ex_start_inv: "registry_inv {} ex_start"
  by (simp add: ex_start_def registry_inv_initial)

lemma ex_session_room:
  "sint (m_last_used_identifier ex_start) + int (sum_list (map api_room ex_session)) < INT_MAX"
  by (simp add: ex_start_def ex_session_def ex_manager_def registry_initial_def INT_MAX_def)

text \<open>
  C22. Every sequence of public calls and monitor wake-ups that returns, started in a state
  satisfying the registry invariant with room left in the identifier counter for every
  device the sequence can add, ends in a state satisfying the registry invariant.
\<close>

theorem api_run_preserves_registry_inv:
  assumes "registry_inv {} s"
    and "sint (m_last_used_identifier s) + int (sum_list (map api_room cs)) < INT_MAX"
    and "api_run cs s = Inr (outs, s')"
  shows "registry_inv {} s'"
  using api_run_counter [OF assms] by simp

theorem api_run_preserves_registry_inv_witness:
  "\<exists>outs s'. api_run ex_session ex_start = Inr (outs, s') \<and> registry_inv {} s'"
proof -
  obtain outs s' where run: "api_run ex_session ex_start = Inr (outs, s')"
    using ex_session_returns by blast
  have "registry_inv {} s'"
    by (rule api_run_preserves_registry_inv [OF ex_start_inv ex_session_room run])
  with run show ?thesis by blast
qed

text \<open>
  C23. Across such a sequence, the identifiers the callback receives with
  \<open>connected = 1\<close> strictly increase, exceed the counter's starting value, and belong to
  no record of the starting registry: a connected identifier is never reused within a run.
\<close>

theorem api_run_connected_ids_fresh:
  assumes "registry_inv {} s"
    and "sint (m_last_used_identifier s) + int (sum_list (map api_room cs)) < INT_MAX"
    and "api_run cs s = Inr (outs, s')"
  shows "sorted_wrt (<) (map sint (output_connected_ids outs)) \<and>
    (\<forall>i\<in>set (output_connected_ids outs). sint (m_last_used_identifier s) < sint i \<and>
       i \<notin> m_identifier ` set (m_device_records s))"
proof -
  have old: "\<forall>r\<in>set (m_device_records s). sint (m_identifier r) \<le> sint (m_last_used_identifier s)"
    using assms(1) by (simp add: registry_inv_def ids_ok_def)
  have fresh: "i \<notin> m_identifier ` set (m_device_records s)"
    if "sint (m_last_used_identifier s) < sint i" for i
    using old that by force
  from api_run_counter [OF assms] fresh show ?thesis by blast
qed

theorem api_run_connected_ids_fresh_witness:
  "\<exists>outs s'. api_run ex_session ex_start = Inr (outs, s') \<and>
     sorted_wrt (<) (map sint (output_connected_ids outs)) \<and>
     (\<forall>i\<in>set (output_connected_ids outs). sint (m_last_used_identifier ex_start) < sint i \<and>
        i \<notin> m_identifier ` set (m_device_records ex_start))"
proof -
  obtain outs s' where run: "api_run ex_session ex_start = Inr (outs, s')"
    using ex_session_returns by blast
  with api_run_connected_ids_fresh [OF ex_start_inv ex_session_room run] show ?thesis by blast
qed



end
